theory Spec2Isabelle
  imports Complex_Main "HOL-Library.Word" "HOL-Library.Sublist"
begin

unbundle bit_operations_syntax

section \<open>Python strings and bytes\<close>

text \<open>
  A Python \<open>str\<close> is modelled as the list of its code points, for code points below 256
  (one \<open>char\<close> per code point).  A \<open>bytes\<close> value is a list of 8-bit words.
\<close>

type_synonym byte = "8 word"

definition isspace :: "char \<Rightarrow> bool" where
  \<comment> \<open>\<open>str.isspace\<close> on one code point below 256\<close>
  "isspace c = (of_char c \<in> {9, 10, 11, 12, 13, 28, 29, 30, 31, 32, 133, 160 :: nat})"

definition strip :: "string \<Rightarrow> string" where
  \<comment> \<open>\<open>str.strip()\<close>: leading and trailing whitespace removed\<close>
  "strip s = rev (dropWhile isspace (rev (dropWhile isspace s)))"

definition lower_char :: "char \<Rightarrow> char" where
  "lower_char c =
     (let n = of_char c :: nat in
      if (65 \<le> n \<and> n \<le> 90) \<or> (192 \<le> n \<and> n \<le> 222 \<and> n \<noteq> 215) then char_of (n + 32) else c)"

definition lower :: "string \<Rightarrow> string" where
  "lower s = map lower_char s"

definition startswith :: "string \<Rightarrow> string \<Rightarrow> bool" where
  "startswith s p = (take (length p) s = p)"

definition encode :: "string \<Rightarrow> byte list" where
  \<comment> \<open>\<open>str.encode()\<close>: UTF-8, one byte below 128 and two bytes from 128 to 255\<close>
  "encode s =
     concat (map (\<lambda>c. let n = of_char c :: nat in
                        if n < 128 then [of_nat n]
                        else [of_nat (192 + n div 64), of_nat (128 + n mod 64)]) s)"

definition hexdigit :: "nat \<Rightarrow> char" where
  "hexdigit n = ''0123456789abcdef'' ! n"

definition hex :: "byte list \<Rightarrow> string" where
  \<comment> \<open>\<open>bytes.hex()\<close>: two lower-case digits per byte\<close>
  "hex bs = concat (map (\<lambda>b. [hexdigit (unat b div 16), hexdigit (unat b mod 16)]) bs)"

definition splitext :: "string \<Rightarrow> string \<times> string" where
  \<comment> \<open>\<open>os.path.splitext\<close> on a file name without directory separators: split at the last
      dot, unless only dots come before it\<close>
  "splitext p =
     (let r = rev p; ext = rev (takeWhile (\<lambda>c. c \<noteq> CHR ''.'') r);
          root = rev (drop 1 (dropWhile (\<lambda>c. c \<noteq> CHR ''.'') r))
      in if CHR ''.'' \<in> set p \<and> (\<exists>c \<in> set root. c \<noteq> CHR ''.'')
         then (root, CHR ''.'' # ext) else (p, []))"

section \<open>hashlib.md5\<close>

text \<open>The MD5 digest of RFC 1321, as \<open>hashlib.md5(data).hexdigest()\<close> computes it.\<close>

definition md5_K :: "32 word list" where
  "md5_K = [0xd76aa478, 0xe8c7b756, 0x242070db, 0xc1bdceee, 0xf57c0faf, 0x4787c62a,
            0xa8304613, 0xfd469501, 0x698098d8, 0x8b44f7af, 0xffff5bb1, 0x895cd7be,
            0x6b901122, 0xfd987193, 0xa679438e, 0x49b40821, 0xf61e2562, 0xc040b340,
            0x265e5a51, 0xe9b6c7aa, 0xd62f105d, 0x02441453, 0xd8a1e681, 0xe7d3fbc8,
            0x21e1cde6, 0xc33707d6, 0xf4d50d87, 0x455a14ed, 0xa9e3e905, 0xfcefa3f8,
            0x676f02d9, 0x8d2a4c8a, 0xfffa3942, 0x8771f681, 0x6d9d6122, 0xfde5380c,
            0xa4beea44, 0x4bdecfa9, 0xf6bb4b60, 0xbebfbc70, 0x289b7ec6, 0xeaa127fa,
            0xd4ef3085, 0x04881d05, 0xd9d4d039, 0xe6db99e5, 0x1fa27cf8, 0xc4ac5665,
            0xf4292244, 0x432aff97, 0xab9423a7, 0xfc93a039, 0x655b59c3, 0x8f0ccc92,
            0xffeff47d, 0x85845dd1, 0x6fa87e4f, 0xfe2ce6e0, 0xa3014314, 0x4e0811a1,
            0xf7537e82, 0xbd3af235, 0x2ad7d2bb, 0xeb86d391]"

definition md5_S :: "nat list" where
  "md5_S = [7, 12, 17, 22, 7, 12, 17, 22, 7, 12, 17, 22, 7, 12, 17, 22,
            5, 9, 14, 20, 5, 9, 14, 20, 5, 9, 14, 20, 5, 9, 14, 20,
            4, 11, 16, 23, 4, 11, 16, 23, 4, 11, 16, 23, 4, 11, 16, 23,
            6, 10, 15, 21, 6, 10, 15, 21, 6, 10, 15, 21, 6, 10, 15, 21]"

definition rotl32 :: "nat \<Rightarrow> 32 word \<Rightarrow> 32 word" where
  "rotl32 c x = push_bit c x OR drop_bit (32 - c) x"

definition le_word32 :: "byte list \<Rightarrow> 32 word" where
  "le_word32 bs = foldr (\<lambda>b w. ucast b OR push_bit 8 w) bs 0"

fun chunks :: "nat \<Rightarrow> nat \<Rightarrow> 'a list \<Rightarrow> 'a list list" where
  "chunks 0 n xs = []"
| "chunks (Suc k) n xs = take n xs # chunks k n (drop n xs)"

definition md5_pad :: "byte list \<Rightarrow> byte list" where
  "md5_pad msg =
     msg @ [0x80] @ replicate ((119 - length msg mod 64) mod 64) 0
       @ map (\<lambda>i. ucast (drop_bit (8 * i) (word_of_nat (8 * length msg) :: 64 word))) [0..<8]"

definition md5_step ::
  "32 word list \<Rightarrow> nat \<Rightarrow> 32 word \<times> 32 word \<times> 32 word \<times> 32 word
     \<Rightarrow> 32 word \<times> 32 word \<times> 32 word \<times> 32 word" where
  "md5_step M i st =
     (case st of (A, B, C, D) \<Rightarrow>
        let (F, g) =
              (if i < 16 then ((B AND C) OR (NOT B AND D), i)
               else if i < 32 then ((D AND B) OR (NOT D AND C), (5 * i + 1) mod 16)
               else if i < 48 then (B XOR C XOR D, (3 * i + 5) mod 16)
               else (C XOR (B OR NOT D), (7 * i) mod 16));
            F' = F + A + md5_K ! i + M ! g
        in (D, B + rotl32 (md5_S ! i) F', B, C))"

definition md5_block ::
  "32 word \<times> 32 word \<times> 32 word \<times> 32 word \<Rightarrow> byte list
     \<Rightarrow> 32 word \<times> 32 word \<times> 32 word \<times> 32 word" where
  "md5_block st blk =
     (let M = map le_word32 (chunks 16 4 blk) in
      case (st, foldl (\<lambda>s i. md5_step M i s) st [0..<64]) of
        ((a0, b0, c0, d0), (A, B, C, D)) \<Rightarrow> (a0 + A, b0 + B, c0 + C, d0 + D))"

definition md5_digest :: "byte list \<Rightarrow> byte list" where
  "md5_digest msg =
     (let p = md5_pad msg in
      case foldl md5_block (0x67452301, 0xefcdab89, 0x98badcfe, 0x10325476)
             (chunks (length p div 64) 64 p) of
        (a, b, c, d) \<Rightarrow>
          concat (map (\<lambda>w. map (\<lambda>i. ucast (drop_bit (8 * i) w)) [0..<4]) [a, b, c, d]))"

definition md5_hexdigest :: "byte list \<Rightarrow> string" where
  "md5_hexdigest msg = hex (md5_digest msg)"

section \<open>workers.py: DetectionWorker\<close>

text \<open>
  A face encoding is a numpy array of float64; it is modelled as the list of the 64-bit
  patterns of its elements, so that \<open>tobytes()\<close> is their little-endian concatenation.
  A frame is a list of rows of pixels; a face location is \<open>(top, right, bottom, left)\<close>.
  Distances, clock readings and intervals are floats in the source and real numbers here.
\<close>

type_synonym embedding = "64 word list"
type_synonym location = "nat \<times> nat \<times> nat \<times> nat"
type_synonym 'p frame = "'p list list"

definition tobytes :: "embedding \<Rightarrow> byte list" where
  "tobytes e = concat (map (\<lambda>w. map (\<lambda>i. ucast (drop_bit (8 * i) w)) [0..<8]) e)"

definition crop :: "'p frame \<Rightarrow> location \<Rightarrow> 'p frame" where
  \<comment> \<open>\<open>frame[top:bottom, left:right]\<close>\<close>
  "crop frame loc =
     (case loc of (top', right', bottom', left') \<Rightarrow>
        map (\<lambda>row. take (right' - left') (drop left' row))
          (take (bottom' - top') (drop top' frame)))"

text \<open>
  The calls into cv2 and face_recognition are parameters: \<open>locate\<close> is the colour
  conversion, the resize to a quarter and \<open>face_locations\<close>; \<open>encodings_at\<close> is
  \<open>face_encodings\<close> at given locations (both \<open>None\<close> when the library raises);
  \<open>distance\<close> is the distance \<open>face_distance\<close> computes between two encodings.
\<close>

record 'p recognition =
  locate :: "'p frame \<Rightarrow> location list option"
  encodings_at :: "'p frame \<Rightarrow> location list \<Rightarrow> embedding list option"
  distance :: "embedding \<Rightarrow> embedding \<Rightarrow> real"

definition face_distance :: "('p, 'x) recognition_scheme \<Rightarrow> embedding list \<Rightarrow> embedding \<Rightarrow> real list" where
  "face_distance L face_encodings face_to_compare =
     map (\<lambda>k. distance L k face_to_compare) face_encodings"

fun argmin_from :: "nat \<Rightarrow> real \<Rightarrow> nat \<Rightarrow> real list \<Rightarrow> nat" where
  \<comment> \<open>best index and best value so far, index of the next element, the remaining elements\<close>
  "argmin_from b v i [] = b"
| "argmin_from b v i (x # xs) = (if x < v then argmin_from i x (Suc i) xs else argmin_from b v (Suc i) xs)"

definition argmin :: "real list \<Rightarrow> nat option" where
  \<comment> \<open>\<open>np.argmin\<close>: the first index of the least element; ValueError on an empty array\<close>
  "argmin xs = (case xs of [] \<Rightarrow> None | x # rest \<Rightarrow> Some (argmin_from 0 x 1 rest))"

record known_faces =
  known_face_encodings :: "embedding list"
  known_face_names :: "string list"

record 'p DetectionWorker = known_faces +
  running :: bool
  session_seen_known :: "string set"
  session_seen_unknown_hashes :: "string set"
  last_processing_time :: real
  processing_interval :: real
  pending_frame :: "'p frame option"

record 'p detection =
  dtype :: string
  name :: string
  face_crop :: "'p frame"
  face_location :: location
  detection_hash :: string
  status :: string

record 'p detection_batch =
  timestamp :: real
  detections :: "'p detection list"
  total_faces :: nat

datatype 'p signal = detection_result "'p detection_batch" | detection_error string

definition DetectionWorker_init :: "embedding list \<Rightarrow> string list \<Rightarrow> 'p DetectionWorker" where
  "DetectionWorker_init encs names =
     \<lparr>known_face_encodings = encs, known_face_names = names, running = False,
      session_seen_known = {}, session_seen_unknown_hashes = {},
      last_processing_time = 0, processing_interval = 2, pending_frame = None\<rparr>"

definition update_known_faces :: "embedding list \<Rightarrow> string list \<Rightarrow> 'p DetectionWorker \<Rightarrow> 'p DetectionWorker" where
  "update_known_faces encodings names s = s\<lparr>known_face_encodings := encodings, known_face_names := names\<rparr>"

definition set_processing_interval :: "real \<Rightarrow> 'p DetectionWorker \<Rightarrow> 'p DetectionWorker" where
  "set_processing_interval interval s = s\<lparr>processing_interval := max (1 / 2) interval\<rparr>"

definition queue_frame :: "'p frame \<Rightarrow> 'p DetectionWorker \<Rightarrow> 'p DetectionWorker" where
  "queue_frame frame s = s\<lparr>pending_frame := Some frame\<rparr>"

definition should_process_frame :: "real \<Rightarrow> 'p DetectionWorker \<Rightarrow> bool" where
  \<comment> \<open>\<open>current_time\<close> is the clock reading \<open>datetime.now().timestamp()\<close>\<close>
  "should_process_frame current_time s =
     (current_time - last_processing_time s \<ge> processing_interval s)"

definition reset_session :: "'p DetectionWorker \<Rightarrow> 'p DetectionWorker" where
  "reset_session s = s\<lparr>session_seen_known := {}, session_seen_unknown_hashes := {}\<rparr>"

definition hash_input :: "embedding \<Rightarrow> string \<Rightarrow> string" where
  \<comment> \<open>the local \<open>hash_input\<close> of \<open>_generate_detection_hash\<close>\<close>
  "hash_input face_encoding nm = nm @ ''_'' @ take 32 (hex (tobytes face_encoding))"

definition generate_detection_hash :: "embedding \<Rightarrow> string \<Rightarrow> string" where
  "generate_detection_hash face_encoding nm = md5_hexdigest (encode (hash_input face_encoding nm))"

definition process_known_face ::
  "string \<Rightarrow> 'p frame \<Rightarrow> location \<Rightarrow> embedding \<Rightarrow> 'p DetectionWorker
     \<Rightarrow> 'p detection option \<times> 'p DetectionWorker" where
  "process_known_face nm crp loc face_encoding s =
     (if nm \<in> session_seen_known s then (None, s)
      else
        let s' = s\<lparr>session_seen_known := insert nm (session_seen_known s)\<rparr>;
            h = generate_detection_hash face_encoding nm
        in (Some \<lparr>dtype = ''known'', name = nm, face_crop = crp, face_location = loc,
                  detection_hash = h, status = ''Present''\<rparr>, s'))"

definition process_unknown_face ::
  "'p frame \<Rightarrow> location \<Rightarrow> embedding \<Rightarrow> 'p DetectionWorker
     \<Rightarrow> 'p detection option \<times> 'p DetectionWorker" where
  "process_unknown_face crp loc face_encoding s =
     (let unknown_hash = generate_detection_hash face_encoding ''Unknown'' in
      if unknown_hash \<in> session_seen_unknown_hashes s then (None, s)
      else
        (Some \<lparr>dtype = ''unknown'', name = ''Unknown'', face_crop = crp, face_location = loc,
               detection_hash = unknown_hash, status = ''Unknown''\<rparr>,
         s\<lparr>session_seen_unknown_hashes := insert unknown_hash (session_seen_unknown_hashes s)\<rparr>))"

definition threshold :: real where
  \<comment> \<open>the float64 value of the literal \<open>0.6\<close>\<close>
  "threshold = 5404319552844595 / 9007199254740992"

definition process_single_face ::
  "('p, 'x) recognition_scheme \<Rightarrow> embedding \<Rightarrow> location \<Rightarrow> 'p frame \<Rightarrow> 'p DetectionWorker
     \<Rightarrow> 'p detection option \<times> 'p DetectionWorker" where
  \<comment> \<open>an exception (ValueError of argmin, IndexError of the name lookup) is caught: \<open>None\<close>\<close>
  "process_single_face L face_encoding loc frame s =
     (let crp = crop frame loc in
      if length (known_face_encodings s) = 0 then process_unknown_face crp loc face_encoding s
      else
        let face_distances = face_distance L (known_face_encodings s) face_encoding in
        case argmin face_distances of
          None \<Rightarrow> (None, s)
        | Some best_match_index \<Rightarrow>
            if face_distances ! best_match_index < threshold then
              (if best_match_index < length (known_face_names s)
               then process_known_face (known_face_names s ! best_match_index) crp loc face_encoding s
               else (None, s))
            else process_unknown_face crp loc face_encoding s)"

fun process_faces ::
  "('p, 'x) recognition_scheme \<Rightarrow> 'p frame \<Rightarrow> (embedding \<times> location) list \<Rightarrow> 'p DetectionWorker
     \<Rightarrow> 'p detection list \<times> 'p DetectionWorker" where
  \<comment> \<open>the loop of \<open>process_frame\<close> over the zipped encodings and locations\<close>
  "process_faces L frame [] s = ([], s)"
| "process_faces L frame ((e, loc) # rest) s =
     (case process_single_face L e loc frame s of
        (result, s') \<Rightarrow>
          (case process_faces L frame rest s' of
             (results, s'') \<Rightarrow>
               ((case result of None \<Rightarrow> results | Some r \<Rightarrow> r # results), s'')))"

definition process_frame ::
  "('p, 'x) recognition_scheme \<Rightarrow> real \<Rightarrow> 'p frame \<Rightarrow> 'p DetectionWorker
     \<Rightarrow> 'p signal option \<times> 'p DetectionWorker" where
  \<comment> \<open>\<open>now\<close> is the clock reading put into the emitted batch\<close>
  "process_frame L now frame s =
     (if \<not> running s then (None, s)
      else
        case locate L frame of
          None \<Rightarrow> (Some (detection_error ''Detection error''), s)
        | Some small_locations \<Rightarrow>
            (let face_locations = map (\<lambda>(top', right', bottom', left').
                                         (top' * 4, right' * 4, bottom' * 4, left' * 4))
                                      small_locations
             in (case encodings_at L frame face_locations of
                   None \<Rightarrow> (Some (detection_error ''Detection error''), s)
                 | Some face_encodings \<Rightarrow>
                     (case process_faces L frame (zip face_encodings face_locations) s of
                        (detection_results, s') \<Rightarrow>
                          ((if detection_results \<noteq> []
                            then Some (detection_result
                                   \<lparr>timestamp = now, detections = detection_results,
                                    total_faces = length face_locations\<rparr>)
                            else None), s')))))"

record 'p iteration =
  handed :: "'p frame option"
  emitted :: "'p signal option"
  after :: "'p DetectionWorker"

text \<open>
  One pass of the \<open>while self.running\<close> loop of \<open>run\<close> is two steps of the worker thread.
  \<open>run_begin\<close> is the test of the slot and of the interval and, when both hold, the call
  of \<open>process_frame\<close> on the frame the slot holds; \<open>handed\<close> is that frame.  \<open>run_end\<close>
  is what follows the return of \<open>process_frame\<close>: the time is stored and the slot is
  cleared.  Calls of the GUI thread may come between the two.
\<close>

definition run_begin ::
  "('p, 'x) recognition_scheme \<Rightarrow> real \<Rightarrow> real \<Rightarrow> 'p DetectionWorker \<Rightarrow> 'p iteration" where
  \<comment> \<open>the two clock readings are the one of \<open>should_process_frame\<close> and the one of the
      emitted batch\<close>
  "run_begin L t_check t_emit s =
     (case pending_frame s of
        None \<Rightarrow> \<lparr>handed = None, emitted = None, after = s\<rparr>
      | Some frame \<Rightarrow>
          if should_process_frame t_check s then
            (case process_frame L t_emit frame s of
               (sig, s') \<Rightarrow> \<lparr>handed = Some frame, emitted = sig, after = s'\<rparr>)
          else \<lparr>handed = None, emitted = None, after = s\<rparr>)"

definition run_end :: "real \<Rightarrow> 'p DetectionWorker \<Rightarrow> 'p DetectionWorker" where
  \<comment> \<open>\<open>self.last_processing_time = ...; del self.pending_frame; self.pending_frame = None\<close>\<close>
  "run_end t_done s = s\<lparr>last_processing_time := t_done, pending_frame := None\<rparr>"

text \<open>
  The worker is driven from two threads: the GUI thread calls \<open>queue_frame\<close>,
  \<open>set_processing_interval\<close>, \<open>reset_session\<close>, \<open>update_known_faces\<close> and \<open>stop\<close>,
  and the worker thread runs \<open>run\<close>.  A history of the worker is a list of these calls
  and of the two steps of each pass of the loop, in the order in which they take effect:
  \<open>BeginPass\<close> with its two clock readings, \<open>EndPass\<close> with the reading it stores.  The
  calls of the GUI thread that lie between a \<open>BeginPass\<close> and its \<open>EndPass\<close> are those
  made while \<open>process_frame\<close> runs; what \<open>process_frame\<close> itself reads and writes (the
  known faces and the session sets) is taken as one step, at \<open>BeginPass\<close>.  \<open>drive_from\<close>
  also carries whether the worker thread is inside a pass: a \<open>BeginPass\<close> inside a pass and an \<open>EndPass\<close> outside one do not
  occur and are skipped.  The test of \<open>while self.running\<close> precedes the pass, so that
  \<open>stop\<close> may come before \<open>process_frame\<close> reads \<open>running\<close>.
\<close>

datatype 'p call =
    Start
  | Stop
  | QueueFrame "'p frame"
  | SetProcessingInterval real
  | ResetSession
  | UpdateKnownFaces "embedding list" "string list"
  | BeginPass real real
  | EndPass real

datatype 'p event =
    Handed real "'p frame" "'p signal option"
  | Stamped real

fun drive_from ::
  "('p, 'x) recognition_scheme \<Rightarrow> bool \<Rightarrow> 'p call list \<Rightarrow> 'p DetectionWorker
     \<Rightarrow> 'p event list \<times> 'p DetectionWorker" where
  \<comment> \<open>the events of a history: \<open>Handed t frame sig\<close> for each call of \<open>process_frame\<close>
      (the reading of the check, the frame, the signal emitted), \<open>Stamped t\<close> for each end
      of a pass; and the last state\<close>
  "drive_from L in_pass [] s = ([], s)"
| "drive_from L in_pass (Start # cs) s = drive_from L in_pass cs (s\<lparr>running := True\<rparr>)"
| "drive_from L in_pass (Stop # cs) s = drive_from L in_pass cs (s\<lparr>running := False\<rparr>)"
| "drive_from L in_pass (QueueFrame frame # cs) s = drive_from L in_pass cs (queue_frame frame s)"
| "drive_from L in_pass (SetProcessingInterval interval # cs) s =
     drive_from L in_pass cs (set_processing_interval interval s)"
| "drive_from L in_pass (ResetSession # cs) s = drive_from L in_pass cs (reset_session s)"
| "drive_from L in_pass (UpdateKnownFaces encodings names # cs) s =
     drive_from L in_pass cs (update_known_faces encodings names s)"
| "drive_from L in_pass (BeginPass t_check t_emit # cs) s =
     (if in_pass then drive_from L in_pass cs s
      else
        (let it = run_begin L t_check t_emit s in
         case handed it of
           None \<Rightarrow> drive_from L False cs (after it)
         | Some frame \<Rightarrow>
             (case drive_from L True cs (after it) of
                (evs, s') \<Rightarrow> (Handed t_check frame (emitted it) # evs, s'))))"
| "drive_from L in_pass (EndPass t_done # cs) s =
     (if in_pass then
        (case drive_from L False cs (run_end t_done s) of
           (evs, s') \<Rightarrow> (Stamped t_done # evs, s'))
      else drive_from L in_pass cs s)"

definition drive ::
  "('p, 'x) recognition_scheme \<Rightarrow> 'p call list \<Rightarrow> 'p DetectionWorker
     \<Rightarrow> 'p event list \<times> 'p DetectionWorker" where
  \<comment> \<open>a history that starts with the worker thread outside a pass\<close>
  "drive L cs s = drive_from L False cs s"

definition signal_detections :: "'p signal option \<Rightarrow> 'p detection list" where
  \<comment> \<open>the detection events of an emitted signal\<close>
  "signal_detections sig =
     (case sig of Some (detection_result batch) \<Rightarrow> detections batch | _ \<Rightarrow> [])"

definition known_names :: "'p detection list \<Rightarrow> string list" where
  "known_names ds = map name (filter (\<lambda>d. dtype d = ''known'') ds)"

definition unknown_hashes :: "'p detection list \<Rightarrow> string list" where
  "unknown_hashes ds = map detection_hash (filter (\<lambda>d. dtype d = ''unknown'') ds)"

definition queued_frames :: "'p call list \<Rightarrow> 'p frame list" where
  "queued_frames cs = concat (map (\<lambda>c. case c of QueueFrame f \<Rightarrow> [f] | _ \<Rightarrow> []) cs)"

definition handed_frames :: "'p event list \<Rightarrow> 'p frame list" where
  \<comment> \<open>the frames given to \<open>process_frame\<close>, in order\<close>
  "handed_frames evs =
     concat (map (\<lambda>ev. case ev of Handed t f sig \<Rightarrow> [f] | Stamped t \<Rightarrow> []) evs)"

section \<open>face_manager.py: FaceManager\<close>

text \<open>
  An image is a value of an abstract type \<open>'i\<close>.  What cv2, face_recognition, the clock and
  the file system answer during a call is a parameter of the model: \<open>None\<close> stands for a
  raised exception.  A log record is its level and the fixed text of its message.
\<close>

datatype level = DEBUG | INFO | WARNING | ERROR

datatype 'i effect =
    Log level string
  | ImageWritten string 'i
  | SnapshotWritten "embedding list" "string list" string

record 'i cv =
  is_uint8 :: "'i \<Rightarrow> bool"
  clip_uint8 :: "'i \<Rightarrow> 'i"
  cvtColor_BGR2RGB :: "'i \<Rightarrow> 'i option"
  face_encodings :: "'i \<Rightarrow> embedding list option"
  imwrite :: "string \<Rightarrow> 'i \<Rightarrow> bool option"
  now_strftime :: string
  now_isoformat :: string
  pickle_dump_ok :: bool

text \<open>
  The faces directory as \<open>os.listdir\<close> lists it: for each entry its name, whether it is a
  file, and the image \<open>_load_and_process_image\<close> returns for it (\<open>None\<close> when it returns
  \<open>None\<close>).  The file \<open>encodings.pkl\<close> is missing, unreadable, or holds the lists stored
  under \<open>encodings\<close> and \<open>names\<close>.
\<close>

record 'i dirent =
  filename :: string
  isfile :: bool
  loaded :: "'i option"

datatype pkl = Missing | Unreadable | Snapshot "embedding list" "string list"

record 'i disk =
  faces_dir_exists :: bool
  listdir :: "'i dirent list"
  encodings_pkl :: pkl

record 'i FaceManager = known_faces +
  faces_dir :: string
  unknowns_dir :: string
  known_face_images :: "string \<rightharpoonup> 'i"

record 'i registration =
  success :: bool
  manager :: "'i FaceManager"
  effects :: "'i effect list"

definition path_join :: "string \<Rightarrow> string \<Rightarrow> string" where
  \<comment> \<open>\<open>os.path.join\<close> of two components (with \<open>/\<close> as the separator)\<close>
  "path_join a b =
     (if startswith b ''/'' then b
      else if a = [] \<or> last a = CHR ''/'' then a @ b else a @ ''/'' @ b)"

definition supported_formats :: "string set" where
  "supported_formats = {''.jpg'', ''.jpeg'', ''.png'', ''.bmp'', ''.gif'', ''.webp'', ''.tiff'', ''.tif''}"

definition load_one :: "('i, 'x) cv_scheme \<Rightarrow> 'i dirent \<Rightarrow> 'i FaceManager \<Rightarrow> 'i FaceManager" where
  \<comment> \<open>the body of the loop of \<open>_load_known_faces\<close> for one directory entry\<close>
  "load_one env ent fm =
     (if \<not> isfile ent then fm
      else
        let file_ext = lower (snd (splitext (filename ent))) in
        if file_ext \<notin> supported_formats then fm
        else
          case loaded ent of
            None \<Rightarrow> fm
          | Some img \<Rightarrow>
              (case face_encodings env img of
                 None \<Rightarrow> fm
               | Some encodings \<Rightarrow>
                   if encodings \<noteq> [] then
                     (let base_name = fst (splitext (filename ent));
                          nm = (if CHR ''_'' \<in> set base_name
                                then takeWhile (\<lambda>c. c \<noteq> CHR ''_'') base_name else base_name)
                      in fm\<lparr>known_face_encodings := known_face_encodings fm @ [hd encodings],
                            known_face_names := known_face_names fm @ [nm],
                            known_face_images := (known_face_images fm)(nm \<mapsto> img)\<rparr>)
                   else fm))"

definition load_known_faces ::
  "('i, 'x) cv_scheme \<Rightarrow> 'i disk \<Rightarrow> 'i FaceManager \<Rightarrow> 'i FaceManager" where
  "load_known_faces env d fm =
     (if \<not> faces_dir_exists d then fm else fold (load_one env) (listdir d) fm)"

definition find_image_for_name :: "'i disk \<Rightarrow> string \<Rightarrow> 'i dirent option" where
  \<comment> \<open>the first directory entry whose name starts with \<open>name_\<close> or whose stem is \<open>name\<close>\<close>
  "find_image_for_name d nm =
     (if \<not> faces_dir_exists d then None
      else find (\<lambda>ent. startswith (filename ent) (nm @ ''_'')
                        \<or> fst (splitext (filename ent)) = nm) (listdir d))"

definition load_images_for_persistent_encodings :: "'i disk \<Rightarrow> 'i FaceManager \<Rightarrow> 'i FaceManager" where
  "load_images_for_persistent_encodings d fm =
     fold (\<lambda>nm m.
            case find_image_for_name d nm of
              None \<Rightarrow> m
            | Some ent \<Rightarrow>
                (case loaded ent of
                   None \<Rightarrow> m
                 | Some img \<Rightarrow> m\<lparr>known_face_images := (known_face_images m)(nm \<mapsto> img)\<rparr>))
       (known_face_names fm) fm"

definition load_persistent_encodings :: "'i disk \<Rightarrow> 'i FaceManager \<Rightarrow> 'i FaceManager" where
  \<comment> \<open>the lists of the snapshot are assigned to the two attributes\<close>
  "load_persistent_encodings d fm =
     (case encodings_pkl d of
        Missing \<Rightarrow> fm
      | Unreadable \<Rightarrow> fm
      | Snapshot encodings names \<Rightarrow>
          load_images_for_persistent_encodings d
            (fm\<lparr>known_face_encodings := encodings, known_face_names := names\<rparr>))"

definition FaceManager_init ::
  "('i, 'x) cv_scheme \<Rightarrow> 'i disk \<Rightarrow> string \<Rightarrow> string \<Rightarrow> 'i FaceManager" where
  "FaceManager_init env d fdir udir =
     load_persistent_encodings d
       (load_known_faces env d
          \<lparr>known_face_encodings = [], known_face_names = [], faces_dir = fdir,
           unknowns_dir = udir, known_face_images = Map.empty\<rparr>)"

fun remove_duplicates_loop ::
  "string list \<Rightarrow> embedding list \<Rightarrow> (string \<rightharpoonup> 'i) \<Rightarrow> nat
     \<Rightarrow> string set \<times> embedding list \<times> string list \<times> (string \<rightharpoonup> 'i)
     \<Rightarrow> (string set \<times> embedding list \<times> string list \<times> (string \<rightharpoonup> 'i)) option" where
  \<comment> \<open>the loop \<open>for i in range(len(names) - 1, -1, -1)\<close>: the fourth argument is the number
      of indices still to visit, the next index being one less; \<open>None\<close> is the IndexError
      of \<open>known_face_encodings[i]\<close>\<close>
  "remove_duplicates_loop names encs images 0 acc = Some acc"
| "remove_duplicates_loop names encs images (Suc i) (seen_names, unique_encodings, unique_names, unique_images) =
     (let nm = names ! i in
      if nm \<notin> seen_names then
        (if i < length encs then
           remove_duplicates_loop names encs images i
             (insert nm seen_names, encs ! i # unique_encodings, nm # unique_names,
              (case images nm of Some img \<Rightarrow> unique_images(nm \<mapsto> img) | None \<Rightarrow> unique_images))
         else None)
      else remove_duplicates_loop names encs images i
             (seen_names, unique_encodings, unique_names, unique_images))"

definition remove_duplicate_encodings :: "'i FaceManager \<Rightarrow> 'i FaceManager" where
  \<comment> \<open>on an exception the three attributes are left as they are\<close>
  "remove_duplicate_encodings fm =
     (case remove_duplicates_loop (known_face_names fm) (known_face_encodings fm)
             (known_face_images fm) (length (known_face_names fm)) ({}, [], [], Map.empty) of
        None \<Rightarrow> fm
      | Some (seen_names, unique_encodings, unique_names, unique_images) \<Rightarrow>
          fm\<lparr>known_face_encodings := unique_encodings, known_face_names := unique_names,
             known_face_images := unique_images\<rparr>)"

definition refresh_faces ::
  "('i, 'x) cv_scheme \<Rightarrow> 'i disk \<Rightarrow> 'i FaceManager \<Rightarrow> 'i FaceManager" where
  "refresh_faces env d fm =
     remove_duplicate_encodings
       (load_persistent_encodings d
          (load_known_faces env d
             (fm\<lparr>known_face_encodings := [], known_face_names := [],
                 known_face_images := Map.empty\<rparr>)))"

definition save_persistent_encodings ::
  "('i, 'x) cv_scheme \<Rightarrow> 'i FaceManager \<Rightarrow> bool \<times> 'i effect list" where
  "save_persistent_encodings env fm =
     (if pickle_dump_ok env
      then (True, [SnapshotWritten (known_face_encodings fm) (known_face_names fm) (now_isoformat env),
                   Log INFO ''Saved encodings to persistent storage''])
      else (False, [Log ERROR ''Error saving persistent encodings'']))"

definition as_uint8 :: "('i, 'x) cv_scheme \<Rightarrow> 'i \<Rightarrow> 'i" where
  \<comment> \<open>\<open>if x.dtype != np.uint8: x = np.clip(x, 0, 255).astype(np.uint8)\<close>\<close>
  "as_uint8 env x = (if \<not> is_uint8 env x then clip_uint8 env x else x)"

definition register_unknown_face ::
  "('i, 'x) cv_scheme \<Rightarrow> 'i \<Rightarrow> string \<Rightarrow> string \<Rightarrow> 'i FaceManager \<Rightarrow> 'i registration" where
  \<comment> \<open>an exception of the library calls is caught by the handler of the whole body\<close>
  "register_unknown_face env face_crop0 detection_hash' name0 fm =
     (if name0 = [] \<or> strip name0 = [] then
        \<lparr>success = False, manager = fm,
         effects = [Log ERROR ''Invalid name provided for registration'']\<rparr>
      else
        let nm = strip name0 in
        if nm \<in> set (known_face_names fm) then
          \<lparr>success = False, manager = fm,
           effects = [Log WARNING ''Name already exists, cannot register duplicate'']\<rparr>
        else
          let face_crop1 = as_uint8 env face_crop0 in
          case cvtColor_BGR2RGB env face_crop1 of
            None \<Rightarrow> \<lparr>success = False, manager = fm,
                      effects = [Log ERROR ''Error registering unknown face'']\<rparr>
          | Some rgb_face0 \<Rightarrow>
              let rgb_face = as_uint8 env rgb_face0 in
              (case face_encodings env rgb_face of
                 None \<Rightarrow> \<lparr>success = False, manager = fm,
                           effects = [Log ERROR ''Error registering unknown face'']\<rparr>
               | Some encodings \<Rightarrow>
                   if encodings = [] then
                     \<lparr>success = False, manager = fm,
                      effects = [Log ERROR ''Could not generate encoding for the face crop'']\<rparr>
                   else
                     let face_encoding = hd encodings;
                         image_filename = nm @ ''_'' @ now_strftime env @ ''.jpg'';
                         image_path = path_join (faces_dir fm) image_filename
                     in (case imwrite env image_path face_crop1 of
                           None \<Rightarrow> \<lparr>success = False, manager = fm,
                                     effects = [Log ERROR ''Error registering unknown face'']\<rparr>
                         | Some written \<Rightarrow>
                             if \<not> written then
                               \<lparr>success = False, manager = fm,
                                effects = [Log ERROR ''Failed to save face image'']\<rparr>
                             else
                               let fm' = fm\<lparr>known_face_encodings :=
                                               known_face_encodings fm @ [face_encoding],
                                             known_face_names := known_face_names fm @ [nm],
                                             known_face_images :=
                                               (known_face_images fm)(nm \<mapsto> face_crop1)\<rparr>
                               in \<lparr>success = True, manager = fm',
                                   effects = [ImageWritten image_path face_crop1]
                                     @ snd (save_persistent_encodings env fm')
                                     @ [Log INFO ''Successfully registered as known face'']\<rparr>)))"

section \<open>Predicates and concrete inputs for the properties\<close>

definition session_detections :: "'p event list \<Rightarrow> 'p detection list" where
  \<comment> \<open>all detection events of a history, in order\<close>
  "session_detections evs =
     concat (map (\<lambda>ev. case ev of Handed t f sig \<Rightarrow> signal_detections sig | Stamped t \<Rightarrow> []) evs)"

definition fresh_events :: "'p DetectionWorker \<Rightarrow> 'p detection list \<Rightarrow> 'p DetectionWorker \<Rightarrow> bool" where
  \<comment> \<open>the events emitted between two states are new to the first state's session sets,
      pairwise different, and recorded in the second state's session sets\<close>
  "fresh_events s ds s' =
     (distinct (known_names ds) \<and> set (known_names ds) \<inter> session_seen_known s = {}
        \<and> session_seen_known s' = session_seen_known s \<union> set (known_names ds)
      \<and> distinct (unknown_hashes ds) \<and> set (unknown_hashes ds) \<inter> session_seen_unknown_hashes s = {}
        \<and> session_seen_unknown_hashes s' = session_seen_unknown_hashes s \<union> set (unknown_hashes ds))"

definition first_min :: "real list \<Rightarrow> nat \<Rightarrow> bool" where
  \<comment> \<open>\<open>k\<close> is the first index of a least element\<close>
  "first_min ds k = (k < length ds \<and> (\<forall>j < length ds. ds ! k \<le> ds ! j) \<and> (\<forall>j < k. ds ! k < ds ! j))"

fun spaced :: "real \<Rightarrow> 'p event list \<Rightarrow> bool" where
  \<comment> \<open>each processing call starts at least half a second after the time stored as
      \<open>last_processing_time\<close> before it (the first argument, then the latest stamp)\<close>
  "spaced l [] = True"
| "spaced l (Handed t f sig # evs) = (t - l \<ge> 1 / 2 \<and> spaced l evs)"
| "spaced l (Stamped d # evs) = spaced d evs"

definition keeps_slot :: "'p call \<Rightarrow> bool" where
  \<comment> \<open>a call that is neither \<open>queue_frame\<close> nor the end of a pass\<close>
  "keeps_slot c = (case c of QueueFrame f \<Rightarrow> False | EndPass t \<Rightarrow> False | _ \<Rightarrow> True)"

definition matches ::
  "('p, 'x) recognition_scheme \<Rightarrow> 'p DetectionWorker \<Rightarrow> embedding \<Rightarrow> string \<Rightarrow> bool" where
  \<comment> \<open>the encoding matches the registered name: the first nearest known encoding is
      nearer than the threshold and carries that name\<close>
  "matches L s e nm =
     (known_face_encodings s \<noteq> []
      \<and> (case argmin (face_distance L (known_face_encodings s) e) of
            None \<Rightarrow> False
          | Some i \<Rightarrow> face_distance L (known_face_encodings s) e ! i < threshold
                      \<and> i < length (known_face_names s) \<and> known_face_names s ! i = nm))"


definition scheduler_kept :: "'p DetectionWorker \<Rightarrow> 'p DetectionWorker \<Rightarrow> bool" where
  \<comment> \<open>the fields of the scheduler are the same in both states\<close>
  "scheduler_kept s s' =
     (pending_frame s' = pending_frame s \<and> last_processing_time s' = last_processing_time s
      \<and> processing_interval s' = processing_interval s \<and> running s' = running s)"

subsection \<open>A small concrete run\<close>

definition demo_lib :: "nat recognition" where
  \<comment> \<open>every frame shows one face with encoding \<open>[1, 2]\<close>; an encoding is at distance 0 from
      itself and 1 from any other\<close>
  "demo_lib = \<lparr>locate = (\<lambda>f. Some [(0, 1, 1, 0)]),
               encodings_at = (\<lambda>f ls. Some (map (\<lambda>l. [1, 2]) ls)),
               distance = (\<lambda>a b. if a = b then 0 else 1)\<rparr>"

definition demo_worker :: "nat DetectionWorker" where
  "demo_worker = DetectionWorker_init [[1, 2]] [''Bob'']"

definition demo_calls :: "nat call list" where
  \<comment> \<open>frame \<open>[[8]]\<close> arrives while \<open>[[6]]\<close> is processed; the pass at 45/4 finds the slot
      empty and the pass at 57/5 comes before the interval has elapsed\<close>
  "demo_calls = [Start, QueueFrame [[5]], QueueFrame [[6]], BeginPass 10 10, QueueFrame [[8]],
                 EndPass 11, SetProcessingInterval (1 / 10), BeginPass (45 / 4) (45 / 4),
                 QueueFrame [[7]], BeginPass (57 / 5) (57 / 5), BeginPass 12 12, EndPass 13]"

definition pixel_lib :: "nat recognition" where
  \<comment> \<open>every frame shows one face, whose encoding is \<open>[p, 2]\<close> for the first pixel \<open>p\<close> of
      the frame; the distance of two encodings is a tenth of the difference of their first
      elements\<close>
  "pixel_lib =
     \<lparr>locate = (\<lambda>f. Some [(0, 1, 1, 0)]),
      encodings_at = (\<lambda>f ls. Some (map (\<lambda>l. [of_nat (case f of (p # r) # rs \<Rightarrow> p | _ \<Rightarrow> 0), 2]) ls)),
      distance = (\<lambda>a b. \<bar>real (unat (case a of x # xs \<Rightarrow> x | [] \<Rightarrow> 0))
                          - real (unat (case b of y # ys \<Rightarrow> y | [] \<Rightarrow> 0))\<bar> / 10)\<rparr>"

definition pixel_worker :: "nat DetectionWorker" where
  \<comment> \<open>a running worker that knows Bob and Eve\<close>
  "pixel_worker = (DetectionWorker_init [[10, 2], [20, 2]] [''Bob'', ''Eve''])\<lparr>running := True\<rparr>"

definition racing_worker :: "nat DetectionWorker" where
  \<comment> \<open>the worker between the two assignments of \<open>update_known_faces\<close> after Eve was
      registered: her encoding is there, her name is not yet\<close>
  "racing_worker = DetectionWorker_init [[10, 2], [20, 2]] [''Bob'']"


definition emb_a :: embedding where
  \<comment> \<open>the float64 array \<open>[0.1, -0.2, 0.0, ..., 0.0]\<close> of 128 elements\<close>
  "emb_a = [0x3FB999999999999A, 0xBFC999999999999A] @ replicate 126 0"


definition demo_cv :: "nat cv" where
  \<comment> \<open>image 0 shows no face, image \<open>n\<close> shows one face with encoding \<open>[n, 2]\<close>; every write
      succeeds\<close>
  "demo_cv = \<lparr>is_uint8 = (\<lambda>i. True), clip_uint8 = (\<lambda>i. i), cvtColor_BGR2RGB = Some,
              face_encodings = (\<lambda>i. if i = 0 then Some [] else Some [[of_nat i, 2]]),
              imwrite = (\<lambda>p i. Some True), now_strftime = ''20240101_120000'',
              now_isoformat = ''2024-01-01T12:00:00'', pickle_dump_ok = True\<rparr>"

definition demo_manager :: "nat FaceManager" where
  "demo_manager = \<lparr>known_face_encodings = [emb_a], known_face_names = [''Alice''],
                   faces_dir = ''faces'', unknowns_dir = ''unknowns'',
                   known_face_images = Map.empty\<rparr>"

definition demo_disk :: "nat disk" where
  \<comment> \<open>the directory holds a picture of Bob, the snapshot holds Alice only\<close>
  "demo_disk = \<lparr>faces_dir_exists = True,
                listdir = [\<lparr>filename = ''Bob.jpg'', isfile = True, loaded = Some 7\<rparr>],
                encodings_pkl = Snapshot [emb_a] [''Alice'']\<rparr>"

definition demo_disk_two :: "nat disk" where
  \<comment> \<open>the directory holds two pictures of Alice, and there is no snapshot\<close>
  "demo_disk_two =
     \<lparr>faces_dir_exists = True,
      listdir = [\<lparr>filename = ''Alice_20240101_120000.jpg'', isfile = True, loaded = Some 3\<rparr>,
                 \<lparr>filename = ''Alice_20240202_120000.jpg'', isfile = True, loaded = Some 4\<rparr>],
      encodings_pkl = Missing\<rparr>"

section \<open>Session deduplication\<close>

lemma known_names_append: "known_names (xs @ ys) = known_names xs @ known_names ys"
  by (simp add: known_names_def)

lemma unknown_hashes_append: "unknown_hashes (xs @ ys) = unknown_hashes xs @ unknown_hashes ys"
  by (simp add: unknown_hashes_def)

lemma fresh_events_nil: "fresh_events s [] s"
  by (simp add: fresh_events_def known_names_def unknown_hashes_def)

lemma fresh_events_trans:
  "fresh_events s ds s' \<Longrightarrow> fresh_events s' es s'' \<Longrightarrow> fresh_events s (ds @ es) s''"
  unfolding fresh_events_def known_names_append unknown_hashes_append
  by (simp add: Int_Un_distrib2) blast

lemma fresh_events_cong:
  "fresh_events s ds s' \<Longrightarrow> session_seen_known t = session_seen_known s
     \<Longrightarrow> session_seen_unknown_hashes t = session_seen_unknown_hashes s
     \<Longrightarrow> session_seen_known t' = session_seen_known s'
     \<Longrightarrow> session_seen_unknown_hashes t' = session_seen_unknown_hashes s'
     \<Longrightarrow> fresh_events t ds t'"
  by (simp add: fresh_events_def)

lemma process_known_face_cases:
  "process_known_face nm c l e s = (r, s') \<Longrightarrow>
     (nm \<in> session_seen_known s \<and> r = None \<and> s' = s) \<or>
     (nm \<notin> session_seen_known s \<and> (\<exists>d. r = Some d \<and> dtype d = ''known'' \<and> name d = nm)
        \<and> s' = s\<lparr>session_seen_known := insert nm (session_seen_known s)\<rparr>)"
  by (auto simp: process_known_face_def Let_def split: if_splits)

lemma process_unknown_face_cases:
  "process_unknown_face c l e s = (r, s') \<Longrightarrow>
     (let h = generate_detection_hash e ''Unknown'' in
     (h \<in> session_seen_unknown_hashes s \<and> r = None \<and> s' = s) \<or>
     (h \<notin> session_seen_unknown_hashes s
        \<and> (\<exists>d. r = Some d \<and> dtype d = ''unknown'' \<and> detection_hash d = h)
        \<and> s' = s\<lparr>session_seen_unknown_hashes := insert h (session_seen_unknown_hashes s)\<rparr>))"
  by (auto simp: process_unknown_face_def Let_def split: if_splits)

lemma single_face_fresh:
  assumes "process_single_face L e loc frame s = (r, s')"
  shows "fresh_events s (case r of None \<Rightarrow> [] | Some d \<Rightarrow> [d]) s'"
  using assms
  by (auto simp: process_single_face_def Let_def fresh_events_def
        known_names_def unknown_hashes_def
      split: if_splits option.splits
      dest!: process_known_face_cases process_unknown_face_cases)

lemma process_faces_fresh:
  "process_faces L frame fs s = (ds, s') \<Longrightarrow> fresh_events s ds s'"
proof (induction fs arbitrary: s ds s')
  case Nil
  then show ?case by (simp add: fresh_events_nil)
next
  case (Cons f fs)
  obtain e loc where f: "f = (e, loc)" by (cases f)
  obtain r s1 where r: "process_single_face L e loc frame s = (r, s1)" by force
  obtain rs s2 where rs: "process_faces L frame fs s1 = (rs, s2)" by force
  from Cons.prems f r rs
  have ds: "ds = (case r of None \<Rightarrow> [] | Some d \<Rightarrow> [d]) @ rs" and s': "s' = s2"
    by (auto split: option.splits)
  show ?case unfolding ds s'
    by (rule fresh_events_trans [OF single_face_fresh [OF r] Cons.IH [OF rs]])
qed

lemma process_frame_fresh:
  "process_frame L now frame s = (sig, s') \<Longrightarrow> fresh_events s (signal_detections sig) s'"
  by (auto simp: process_frame_def Let_def fresh_events_nil signal_detections_def
      split: if_splits option.splits prod.splits dest: process_faces_fresh)

lemma run_begin_fresh:
  "fresh_events s (signal_detections (emitted (run_begin L a b s))) (after (run_begin L a b s))"
proof (cases "pending_frame s")
  case None
  then show ?thesis by (simp add: run_begin_def signal_detections_def fresh_events_nil)
next
  case (Some f)
  show ?thesis
  proof (cases "should_process_frame a s")
    case False
    with Some show ?thesis by (simp add: run_begin_def signal_detections_def fresh_events_nil)
  next
    case True
    obtain sig s' where p: "process_frame L b f s = (sig, s')" by force
    from process_frame_fresh [OF p] show ?thesis
      using Some True p by (simp add: run_begin_def)
  qed
qed

lemma session_detections_Cons:
  "session_detections (Handed t f sig # evs) = signal_detections sig @ session_detections evs"
  "session_detections (Stamped t # evs) = session_detections evs"
  by (simp_all add: session_detections_def)

lemma drive_from_fresh:
  "ResetSession \<notin> set cs \<Longrightarrow> drive_from L in_pass cs s = (evs, s')
     \<Longrightarrow> fresh_events s (session_detections evs) s'"
proof (induction L in_pass cs s arbitrary: evs s' rule: drive_from.induct)
  case (1 L in_pass s)
  then show ?case by (simp add: session_detections_def fresh_events_nil)
next
  case (8 L in_pass t_check t_emit cs s)
  show ?case
  proof (cases in_pass)
    case True
    with 8 show ?thesis by simp
  next
    case False
    define it where "it = run_begin L t_check t_emit s"
    have b: "fresh_events s (signal_detections (emitted it)) (after it)"
      unfolding it_def by (rule run_begin_fresh)
    show ?thesis
    proof (cases "handed it")
      case None
      then have "emitted it = None"
        by (auto simp: it_def run_begin_def split: option.splits if_splits prod.splits)
      with b have b': "fresh_events s [] (after it)" by (simp add: signal_detections_def)
      from "8.prems" False None have d: "drive_from L False cs (after it) = (evs, s')"
        by (simp add: it_def Let_def)
      from "8.IH"(2) [OF False it_def None _ d] "8.prems"(1)
      have "fresh_events (after it) (session_detections evs) s'" by simp
      with fresh_events_trans [OF b'] show ?thesis by simp
    next
      case (Some frame)
      obtain evs1 s1 where d: "drive_from L True cs (after it) = (evs1, s1)" by force
      from "8.prems" False Some d
      have evs: "evs = Handed t_check frame (emitted it) # evs1" and s': "s' = s1"
        by (simp_all add: it_def Let_def)
      from "8.IH"(3) [OF False it_def Some _ d] "8.prems"(1)
      have "fresh_events (after it) (session_detections evs1) s1" by simp
      with fresh_events_trans [OF b] show ?thesis
        unfolding evs s' by (simp add: session_detections_Cons)
    qed
  qed
next
  case (9 L in_pass t_done cs s)
  show ?case
  proof (cases in_pass)
    case False
    with 9 show ?thesis by simp
  next
    case True
    obtain evs1 s1 where d: "drive_from L False cs (run_end t_done s) = (evs1, s1)" by force
    from "9.prems" True d have evs: "evs = Stamped t_done # evs1" and s': "s' = s1"
      by simp_all
    from "9.IH"(1) [OF True _ d] "9.prems"(1)
    have "fresh_events (run_end t_done s) (session_detections evs1) s1" by simp
    then show ?thesis
      unfolding evs s' by (auto simp: session_detections_Cons run_end_def elim: fresh_events_cong)
  qed
qed (auto simp: queue_frame_def set_processing_interval_def update_known_faces_def
       elim!: fresh_events_cong)

text \<open>
  C1.  Within one session (a history without \<open>reset_session\<close>) the worker emits at most one
  event per known name and at most one per unknown detection hash.  A known face whose name
  is already in \<open>session_seen_known\<close> and an unknown face whose hash is already in
  \<open>session_seen_unknown_hashes\<close> produce no event and leave the state as it is; otherwise
  the name (the hash) is added to the session set and exactly one event is returned.  Over
  a whole history the names of the known events are pairwise different, the hashes of the
  unknown events are pairwise different, and none was in the session sets at the start.
\<close>

theorem session_dedup:
  "(n_seen \<in> session_seen_known s_seen \<longrightarrow>
      process_known_face n_seen c l e s_seen = (None, s_seen))
   \<and> (n_new \<notin> session_seen_known s_new \<longrightarrow>
        (\<exists>d. process_known_face n_new c l e s_new
               = (Some d, s_new\<lparr>session_seen_known := insert n_new (session_seen_known s_new)\<rparr>)
             \<and> dtype d = ''known'' \<and> name d = n_new))
   \<and> (generate_detection_hash e_seen ''Unknown'' \<in> session_seen_unknown_hashes t_seen \<longrightarrow>
        process_unknown_face c l e_seen t_seen = (None, t_seen))
   \<and> (generate_detection_hash e_new ''Unknown'' \<notin> session_seen_unknown_hashes t_new \<longrightarrow>
        (\<exists>d. process_unknown_face c l e_new t_new
               = (Some d, t_new\<lparr>session_seen_unknown_hashes :=
                                 insert (generate_detection_hash e_new ''Unknown'')
                                   (session_seen_unknown_hashes t_new)\<rparr>)
             \<and> dtype d = ''unknown''
             \<and> detection_hash d = generate_detection_hash e_new ''Unknown''))
   \<and> (ResetSession \<notin> set cs \<longrightarrow>
        distinct (known_names (session_detections (fst (drive L cs s))))
        \<and> distinct (unknown_hashes (session_detections (fst (drive L cs s))))
        \<and> set (known_names (session_detections (fst (drive L cs s))))
             \<inter> session_seen_known s = {}
        \<and> set (unknown_hashes (session_detections (fst (drive L cs s))))
             \<inter> session_seen_unknown_hashes s = {})"
proof -
  have "ResetSession \<notin> set cs \<Longrightarrow>
          fresh_events s (session_detections (fst (drive L cs s))) (snd (drive L cs s))"
    unfolding drive_def by (rule drive_from_fresh) simp_all
  then show ?thesis
    by (auto simp: process_known_face_def process_unknown_face_def Let_def fresh_events_def)
qed

lemma demo_run_names:
  "known_names (session_detections (fst (drive demo_lib demo_calls demo_worker))) = [''Bob'']"
  by (simp add: drive_def demo_lib_def demo_calls_def demo_worker_def DetectionWorker_init_def
      queue_frame_def run_begin_def run_end_def should_process_frame_def
      set_processing_interval_def process_frame_def process_single_face_def
      face_distance_def argmin_def process_known_face_def crop_def threshold_def
      session_detections_def signal_detections_def known_names_def Let_def)

theorem session_dedup_witness:
  "''Bob'' \<in> session_seen_known (demo_worker\<lparr>session_seen_known := {''Bob''}\<rparr>)
   \<and> ''Bob'' \<notin> session_seen_known demo_worker
   \<and> generate_detection_hash emb_a ''Unknown''
        \<in> session_seen_unknown_hashes
            (demo_worker\<lparr>session_seen_unknown_hashes := {generate_detection_hash emb_a ''Unknown''}\<rparr>)
   \<and> generate_detection_hash emb_a ''Unknown'' \<notin> session_seen_unknown_hashes demo_worker
   \<and> ResetSession \<notin> set demo_calls
   \<and> process_known_face ''Bob'' [[5]] (0, 4, 4, 0) [1, 2]
         (demo_worker\<lparr>session_seen_known := {''Bob''}\<rparr>)
       = (None, demo_worker\<lparr>session_seen_known := {''Bob''}\<rparr>)
   \<and> fst (process_known_face ''Bob'' [[5]] (0, 4, 4, 0) [1, 2] demo_worker) \<noteq> None
   \<and> distinct (known_names (session_detections (fst (drive demo_lib demo_calls demo_worker))))
   \<and> known_names (session_detections (fst (drive demo_lib demo_calls demo_worker))) = [''Bob'']"
  using session_dedup [where n_seen = "''Bob''"
      and s_seen = "demo_worker\<lparr>session_seen_known := {''Bob''}\<rparr>"
      and n_new = "''Bob''" and s_new = demo_worker and e_seen = emb_a
      and t_seen = "demo_worker\<lparr>session_seen_unknown_hashes :=
                                  {generate_detection_hash emb_a ''Unknown''}\<rparr>"
      and e_new = emb_a and t_new = demo_worker and cs = demo_calls and L = demo_lib
      and s = demo_worker and c = "[[5]]" and l = "(0, 4, 4, 0)" and e = "[1, 2]"]
    demo_run_names
  by (auto simp: demo_worker_def DetectionWorker_init_def demo_calls_def)

section \<open>Classification of a face\<close>

lemma threshold_value: "threshold \<le> 6 / 10 \<and> 6 / 10 - threshold < 1 / 10 ^ 16"
  by (simp add: threshold_def)

lemma argmin_from_first_min:
  "first_min pre b \<Longrightarrow> v = pre ! b \<Longrightarrow> i = length pre
     \<Longrightarrow> first_min (pre @ xs) (argmin_from b v i xs)"
proof (induction xs arbitrary: pre b v i)
  case Nil
  then show ?case by simp
next
  case (Cons x xs)
  show ?case
  proof (cases "x < v")
    case True
    have "first_min (pre @ [x]) (length pre)"
      unfolding first_min_def using Cons.prems True
      by (auto simp: first_min_def nth_append less_Suc_eq intro: less_le_trans less_imp_le)
    from Cons.IH [OF this, of x "Suc i"] Cons.prems True show ?thesis by simp
  next
    case False
    have "first_min (pre @ [x]) b"
      unfolding first_min_def using Cons.prems False
      by (auto simp: first_min_def nth_append less_Suc_eq)
    from Cons.IH [OF this, of v "Suc i"] Cons.prems False show ?thesis
      by (simp add: nth_append first_min_def)
  qed
qed

lemma argmin_first_min:
  "ds \<noteq> [] \<Longrightarrow> \<exists>k. argmin ds = Some k \<and> first_min ds k"
proof (cases ds)
  case Nil
  assume "ds \<noteq> []"
  with Nil show ?thesis by simp
next
  case (Cons x rest)
  have "first_min [x] 0" by (simp add: first_min_def)
  from argmin_from_first_min [OF this, of x 1 rest] Cons show ?thesis
    by (simp add: argmin_def)
qed

lemma first_min_Min: "first_min ds k \<Longrightarrow> ds ! k = Min (set ds)"
  unfolding first_min_def
  by (intro Min_eqI [symmetric]) (auto simp: in_set_conv_nth)

lemma single_face_cases:
  assumes "known_face_encodings s \<noteq> []"
  shows "\<exists>i < length (known_face_encodings s).
           distance L (known_face_encodings s ! i) e
             = Min ((\<lambda>k. distance L k e) ` set (known_face_encodings s))
           \<and> (\<forall>j < i. distance L (known_face_encodings s ! i) e
                        < distance L (known_face_encodings s ! j) e)
           \<and> argmin (face_distance L (known_face_encodings s) e) = Some i
           \<and> face_distance L (known_face_encodings s) e ! i
               = Min ((\<lambda>k. distance L k e) ` set (known_face_encodings s))"
proof -
  define ds where "ds = face_distance L (known_face_encodings s) e"
  have len: "length ds = length (known_face_encodings s)"
    by (simp add: ds_def face_distance_def)
  with assms have "ds \<noteq> []" by auto
  from argmin_first_min [OF this]
  obtain k where k: "argmin ds = Some k" "first_min ds k" by blast
  have kl: "k < length (known_face_encodings s)"
    using k(2) len by (simp add: first_min_def)
  have nth: "\<And>j. j < length (known_face_encodings s)
               \<Longrightarrow> ds ! j = distance L (known_face_encodings s ! j) e"
    by (simp add: ds_def face_distance_def)
  have set: "set ds = (\<lambda>k. distance L k e) ` set (known_face_encodings s)"
    by (simp add: ds_def face_distance_def)
  have m: "ds ! k = Min ((\<lambda>k. distance L k e) ` set (known_face_encodings s))"
    using first_min_Min [OF k(2)] set by simp
  have "\<forall>j < k. ds ! k < ds ! j"
    using k(2) by (simp add: first_min_def)
  with kl m nth k(1) show ?thesis
    unfolding ds_def [symmetric] by (intro exI [of _ k]) auto
qed

text \<open>
  C3 as stated: every detected face is classified, as known when the least distance is below
  the threshold and as unknown otherwise.  It fails when the minimizing encoding has no
  name: in the worker that has the encodings of Bob and Eve but the name of Bob only, a face
  at distance 0.1 from Eve's encoding raises IndexError at the lookup of the name; the
  handler returns no event and leaves the session sets empty, where the known path and the
  unknown path would each have returned an event.
\<close>

theorem classification_counterexample:
  "known_face_encodings racing_worker \<noteq> []
   \<and> Min ((\<lambda>k. distance pixel_lib k [19, 2]) ` set (known_face_encodings racing_worker))
       < threshold
   \<and> process_single_face pixel_lib [19, 2] (0, 4, 4, 0) [[19]] racing_worker
       = (None, racing_worker)
   \<and> fst (process_unknown_face (crop [[19]] (0, 4, 4, 0)) (0, 4, 4, 0) [19, 2] racing_worker)
       \<noteq> None
   \<and> fst (process_known_face ''Eve'' (crop [[19]] (0, 4, 4, 0)) (0, 4, 4, 0) [19, 2]
             racing_worker) \<noteq> None"
  by (simp add: racing_worker_def DetectionWorker_init_def pixel_lib_def threshold_def
      process_single_face_def process_unknown_face_def process_known_face_def
      face_distance_def argmin_def Let_def)

text \<open>
  C3, amended.  For every detected face: with no known encodings the face is handled as
  unknown.  Otherwise the distance to every known encoding is computed, and with \<open>i\<close> the
  first index at which the distance is the minimum over all known encodings: when that
  minimum is not strictly below the threshold 0.6 the face is handled as unknown; when it is
  strictly below and \<open>known_face_names\<close> has an entry at \<open>i\<close>, the face is handled as the
  known face of that name; when it is strictly below and \<open>known_face_names\<close> is too short to
  have an entry at \<open>i\<close>, the face is dropped: no event, and the state is left as it is.
\<close>

theorem classification:
  "(known_face_encodings s_empty = [] \<longrightarrow>
      process_single_face L e loc frame s_empty
        = process_unknown_face (crop frame loc) loc e s_empty)
   \<and> (known_face_encodings s \<noteq> [] \<longrightarrow>
        (\<exists>i < length (known_face_encodings s).
           distance L (known_face_encodings s ! i) e
             = Min ((\<lambda>k. distance L k e) ` set (known_face_encodings s))
           \<and> (\<forall>j < i. distance L (known_face_encodings s ! i) e
                        < distance L (known_face_encodings s ! j) e)
           \<and> process_single_face L e loc frame s
               = (if Min ((\<lambda>k. distance L k e) ` set (known_face_encodings s)) < threshold
                  then (if i < length (known_face_names s)
                        then process_known_face (known_face_names s ! i) (crop frame loc) loc e s
                        else (None, s))
                  else process_unknown_face (crop frame loc) loc e s)))"
proof (intro conjI impI)
  assume "known_face_encodings s_empty = []"
  then show "process_single_face L e loc frame s_empty
        = process_unknown_face (crop frame loc) loc e s_empty"
    by (simp add: process_single_face_def)
next
  assume a: "known_face_encodings s \<noteq> []"
  from single_face_cases [OF a, of L e]
  obtain i where i: "i < length (known_face_encodings s)"
    "distance L (known_face_encodings s ! i) e
       = Min ((\<lambda>k. distance L k e) ` set (known_face_encodings s))"
    "\<forall>j < i. distance L (known_face_encodings s ! i) e
                < distance L (known_face_encodings s ! j) e"
    "argmin (face_distance L (known_face_encodings s) e) = Some i"
    "face_distance L (known_face_encodings s) e ! i
       = Min ((\<lambda>k. distance L k e) ` set (known_face_encodings s))"
    by blast
  have "process_single_face L e loc frame s
          = (if Min ((\<lambda>k. distance L k e) ` set (known_face_encodings s)) < threshold
             then (if i < length (known_face_names s)
                   then process_known_face (known_face_names s ! i) (crop frame loc) loc e s
                   else (None, s))
             else process_unknown_face (crop frame loc) loc e s)"
    using a i(4,5) by (simp add: process_single_face_def Let_def)
  with i(1,2,3) show "\<exists>i < length (known_face_encodings s).
           distance L (known_face_encodings s ! i) e
             = Min ((\<lambda>k. distance L k e) ` set (known_face_encodings s))
           \<and> (\<forall>j < i. distance L (known_face_encodings s ! i) e
                        < distance L (known_face_encodings s ! j) e)
           \<and> process_single_face L e loc frame s
               = (if Min ((\<lambda>k. distance L k e) ` set (known_face_encodings s)) < threshold
                  then (if i < length (known_face_names s)
                        then process_known_face (known_face_names s ! i) (crop frame loc) loc e s
                        else (None, s))
                  else process_unknown_face (crop frame loc) loc e s)"
    by blast
qed

lemma pixel_distances:
  "face_distance pixel_lib (known_face_encodings pixel_worker) [19, 2] = [9 / 10, 1 / 10]"
  "face_distance pixel_lib (known_face_encodings pixel_worker) [15, 2] = [1 / 2, 1 / 2]"
  "face_distance pixel_lib (known_face_encodings pixel_worker) [40, 2] = [3, 2]"
  by (simp_all add: face_distance_def pixel_lib_def pixel_worker_def DetectionWorker_init_def)

theorem classification_witness:
  "known_face_encodings (DetectionWorker_init [] [] :: nat DetectionWorker) = []
   \<and> known_face_encodings pixel_worker \<noteq> []
   \<and> process_single_face pixel_lib [19, 2] (0, 4, 4, 0) [[19]] (DetectionWorker_init [] [])
       = process_unknown_face (crop [[19]] (0, 4, 4, 0)) (0, 4, 4, 0) [19, 2]
           (DetectionWorker_init [] [])
   \<and> face_distance pixel_lib (known_face_encodings pixel_worker) [19, 2] = [9 / 10, 1 / 10]
   \<and> process_single_face pixel_lib [19, 2] (0, 4, 4, 0) [[19]] pixel_worker
       = process_known_face ''Eve'' (crop [[19]] (0, 4, 4, 0)) (0, 4, 4, 0) [19, 2] pixel_worker
   \<and> face_distance pixel_lib (known_face_encodings pixel_worker) [15, 2] = [1 / 2, 1 / 2]
   \<and> process_single_face pixel_lib [15, 2] (0, 4, 4, 0) [[15]] pixel_worker
       = process_known_face ''Bob'' (crop [[15]] (0, 4, 4, 0)) (0, 4, 4, 0) [15, 2] pixel_worker
   \<and> face_distance pixel_lib (known_face_encodings pixel_worker) [40, 2] = [3, 2]
   \<and> process_single_face pixel_lib [40, 2] (0, 4, 4, 0) [[40]] pixel_worker
       = process_unknown_face (crop [[40]] (0, 4, 4, 0)) (0, 4, 4, 0) [40, 2] pixel_worker
   \<and> process_single_face pixel_lib [19, 2] (0, 4, 4, 0) [[19]] racing_worker
       = (None, racing_worker)"
proof -
  have ne: "known_face_encodings pixel_worker \<noteq> []" "known_face_encodings racing_worker \<noteq> []"
    and em: "known_face_encodings (DetectionWorker_init [] [] :: nat DetectionWorker) = []"
    by (simp_all add: pixel_worker_def racing_worker_def DetectionWorker_init_def)
  have d: "distance pixel_lib = (\<lambda>a b. \<bar>real (unat (case a of x # xs \<Rightarrow> x | [] \<Rightarrow> 0))
                          - real (unat (case b of y # ys \<Rightarrow> y | [] \<Rightarrow> 0))\<bar> / 10)"
    by (simp add: pixel_lib_def)
  have w: "known_face_encodings pixel_worker = [[10, 2], [20, 2]]"
    "known_face_names pixel_worker = [''Bob'', ''Eve'']"
    "known_face_encodings racing_worker = [[10, 2], [20, 2]]"
    "known_face_names racing_worker = [''Bob'']"
    by (simp_all add: pixel_worker_def racing_worker_def DetectionWorker_init_def)
  from classification [where s_empty = "DetectionWorker_init [] [] :: nat DetectionWorker"
      and s = pixel_worker and L = pixel_lib and e = "[19, 2]" and loc = "(0, 4, 4, 0)"
      and frame = "[[19]]"] em ne
  have a: "process_single_face pixel_lib [19, 2] (0, 4, 4, 0) [[19]] (DetectionWorker_init [] [])
       = process_unknown_face (crop [[19]] (0, 4, 4, 0)) (0, 4, 4, 0) [19, 2]
           (DetectionWorker_init [] [])"
    and b: "process_single_face pixel_lib [19, 2] (0, 4, 4, 0) [[19]] pixel_worker
       = process_known_face ''Eve'' (crop [[19]] (0, 4, 4, 0)) (0, 4, 4, 0) [19, 2] pixel_worker"
    by (auto simp: w d threshold_def less_Suc_eq)
  from classification [where s_empty = "DetectionWorker_init [] [] :: nat DetectionWorker"
      and s = pixel_worker and L = pixel_lib and e = "[15, 2]" and loc = "(0, 4, 4, 0)"
      and frame = "[[15]]"] ne
  have c: "process_single_face pixel_lib [15, 2] (0, 4, 4, 0) [[15]] pixel_worker
       = process_known_face ''Bob'' (crop [[15]] (0, 4, 4, 0)) (0, 4, 4, 0) [15, 2] pixel_worker"
    by (auto simp: w d threshold_def less_Suc_eq)
  from classification [where s_empty = "DetectionWorker_init [] [] :: nat DetectionWorker"
      and s = pixel_worker and L = pixel_lib and e = "[40, 2]" and loc = "(0, 4, 4, 0)"
      and frame = "[[40]]"] ne
  have e: "process_single_face pixel_lib [40, 2] (0, 4, 4, 0) [[40]] pixel_worker
       = process_unknown_face (crop [[40]] (0, 4, 4, 0)) (0, 4, 4, 0) [40, 2] pixel_worker"
    by (auto simp: w d threshold_def less_Suc_eq)
  from classification [where s_empty = "DetectionWorker_init [] [] :: nat DetectionWorker"
      and s = racing_worker and L = pixel_lib and e = "[19, 2]" and loc = "(0, 4, 4, 0)"
      and frame = "[[19]]"] ne
  have f: "process_single_face pixel_lib [19, 2] (0, 4, 4, 0) [[19]] racing_worker
       = (None, racing_worker)"
    by (auto simp: w d threshold_def less_Suc_eq)
  from a b c e f em ne pixel_distances show ?thesis by simp
qed

section \<open>The same face twice\<close>

lemma matches_session [simp]:
  "matches L (s\<lparr>session_seen_known := X\<rparr>) e nm = matches L s e nm"
  "matches L (reset_session s) e nm = matches L s e nm"
  by (simp_all add: matches_def reset_session_def cong: option.case_cong)




section \<open>The pending-frame slot\<close>

lemma single_face_kept:
  "process_single_face L e loc frame s = (r, s') \<Longrightarrow> scheduler_kept s s'"
  by (auto simp: process_single_face_def process_known_face_def process_unknown_face_def
        Let_def scheduler_kept_def split: if_splits option.splits)

lemma process_faces_kept:
  "process_faces L frame fs s = (ds, s') \<Longrightarrow> scheduler_kept s s'"
proof (induction fs arbitrary: s ds s')
  case Nil
  then show ?case by (simp add: scheduler_kept_def)
next
  case (Cons f fs)
  obtain e loc where f: "f = (e, loc)" by (cases f)
  obtain r s1 where r: "process_single_face L e loc frame s = (r, s1)" by force
  obtain rs s2 where rs: "process_faces L frame fs s1 = (rs, s2)" by force
  from Cons.prems f r rs have "s' = s2" by (auto split: option.splits)
  with single_face_kept [OF r] Cons.IH [OF rs] show ?case
    by (simp add: scheduler_kept_def)
qed

lemma process_frame_kept:
  "process_frame L now frame s = (sig, s') \<Longrightarrow> scheduler_kept s s'"
  by (auto simp: process_frame_def Let_def
      split: if_splits option.splits prod.splits dest: process_faces_kept)
    (simp_all add: scheduler_kept_def)

lemma run_begin_handed:
  "handed (run_begin L a b s) = (if should_process_frame a s then pending_frame s else None)"
  by (auto simp: run_begin_def split: option.splits prod.splits)

lemma run_begin_kept: "scheduler_kept s (after (run_begin L a b s))"
  by (auto simp: run_begin_def scheduler_kept_def split: option.splits prod.splits
      dest!: process_frame_kept)

lemma run_begin_idle: "handed (run_begin L a b s) = None \<Longrightarrow> after (run_begin L a b s) = s"
  by (auto simp: run_begin_def split: option.splits prod.splits if_splits)

lemma fold_queue_frame:
  "fs \<noteq> [] \<Longrightarrow> fold queue_frame fs s = s\<lparr>pending_frame := Some (last fs)\<rparr>"
proof (induction fs arbitrary: s)
  case Nil
  then show ?case by simp
next
  case (Cons f fs)
  then show ?case by (cases "fs = []") (simp_all add: queue_frame_def)
qed

lemma queued_frames_Cons:
  "queued_frames (c # cs) = (case c of QueueFrame f \<Rightarrow> [f] | _ \<Rightarrow> []) @ queued_frames cs"
  by (simp add: queued_frames_def)

lemma handed_frames_Cons:
  "handed_frames (Handed t f sig # evs) = f # handed_frames evs"
  "handed_frames (Stamped t # evs) = handed_frames evs"
  by (simp_all add: handed_frames_def)

lemma drive_from_subseq:
  "drive_from L in_pass cs s = (evs, s') \<Longrightarrow>
     subseq (handed_frames evs)
       ((if in_pass then [] else case pending_frame s of None \<Rightarrow> [] | Some f \<Rightarrow> [f])
        @ queued_frames cs)"
proof (induction L in_pass cs s arbitrary: evs s' rule: drive_from.induct)
  case (1 L in_pass s)
  then show ?case by (simp add: handed_frames_def)
next
  case (4 L in_pass frame cs s)
  from "4.prems" have d: "drive_from L in_pass cs (queue_frame frame s) = (evs, s')" by simp
  from "4.IH" [OF d]
  have ih: "subseq (handed_frames evs) ((if in_pass then [] else [frame]) @ queued_frames cs)"
    by (cases in_pass) (simp_all add: queue_frame_def)
  have "subseq (handed_frames evs) (frame # queued_frames cs)"
  proof (cases in_pass)
    case True
    with ih show ?thesis by (simp add: list_emb_Cons)
  next
    case False
    with ih show ?thesis by simp
  qed
  then have "subseq (handed_frames evs)
               ((if in_pass then [] else case pending_frame s of None \<Rightarrow> [] | Some f \<Rightarrow> [f])
                @ frame # queued_frames cs)"
    by (rule list_emb_append2)
  then show ?case by (simp add: queued_frames_Cons)
next
  case (8 L in_pass t_check t_emit cs s)
  show ?case
  proof (cases in_pass)
    case True
    with 8 show ?thesis by (simp add: queued_frames_Cons)
  next
    case False
    define it where "it = run_begin L t_check t_emit s"
    show ?thesis
    proof (cases "handed it")
      case None
      with run_begin_idle [of L t_check t_emit s] have same: "after it = s"
        by (simp add: it_def)
      from "8.prems" False None have d: "drive_from L False cs (after it) = (evs, s')"
        by (simp add: it_def Let_def)
      from "8.IH"(2) [OF False it_def None d] same False show ?thesis
        by (simp add: queued_frames_Cons)
    next
      case (Some frame)
      obtain evs1 s1 where d: "drive_from L True cs (after it) = (evs1, s1)" by force
      from "8.prems" False Some d
      have evs: "evs = Handed t_check frame (emitted it) # evs1"
        by (simp add: it_def Let_def)
      from Some run_begin_handed [of L t_check t_emit s]
      have p: "pending_frame s = Some frame"
        by (auto simp: it_def split: if_splits)
      from "8.IH"(3) [OF False it_def Some d]
      have "subseq (handed_frames evs1) (queued_frames cs)" by simp
      with p False show ?thesis
        by (simp add: evs handed_frames_Cons queued_frames_Cons)
    qed
  qed
next
  case (9 L in_pass t_done cs s)
  show ?case
  proof (cases in_pass)
    case False
    with 9 show ?thesis by (simp add: queued_frames_Cons)
  next
    case True
    obtain evs1 s1 where d: "drive_from L False cs (run_end t_done s) = (evs1, s1)" by force
    from "9.prems" True d have evs: "evs = Stamped t_done # evs1" by simp
    from "9.IH"(1) [OF True d]
    have "subseq (handed_frames evs1) (queued_frames cs)" by (simp add: run_end_def)
    with True show ?thesis by (simp add: evs handed_frames_Cons queued_frames_Cons)
  qed
qed (auto simp: queued_frames_Cons set_processing_interval_def reset_session_def
       update_known_faces_def)

lemma snd_case_Cons: "snd (case p of (evs, s') \<Rightarrow> (e # evs, s')) = snd p"
  by (simp add: case_prod_beta)

lemma drive_from_slot:
  "pending_frame (snd (drive_from L in_pass cs s)) = None
   \<or> pending_frame (snd (drive_from L in_pass cs s))
       = (if queued_frames cs = [] then pending_frame s else Some (last (queued_frames cs)))"
proof (induction L in_pass cs s rule: drive_from.induct)
  case (1 L in_pass s)
  then show ?case by (simp add: queued_frames_def)
next
  case (4 L in_pass frame cs s)
  then show ?case by (auto simp: queued_frames_Cons queue_frame_def)
next
  case (8 L in_pass t_check t_emit cs s)
  show ?case
  proof (cases in_pass)
    case True
    with 8 show ?thesis by (auto simp: queued_frames_Cons)
  next
    case False
    define it where "it = run_begin L t_check t_emit s"
    have k: "pending_frame (after it) = pending_frame s"
      using run_begin_kept [of s L t_check t_emit] by (simp add: it_def scheduler_kept_def)
    show ?thesis
    proof (cases "handed it")
      case None
      from "8.IH"(2) [OF False it_def None] False None k show ?thesis
        by (auto simp: queued_frames_Cons it_def [symmetric] Let_def)
    next
      case (Some frame)
      from "8.IH"(3) [OF False it_def Some] False Some k show ?thesis
        by (auto simp: queued_frames_Cons it_def [symmetric] Let_def snd_case_Cons)
    qed
  qed
next
  case (9 L in_pass t_done cs s)
  show ?case
  proof (cases in_pass)
    case False
    with 9 show ?thesis by (auto simp: queued_frames_Cons)
  next
    case True
    from "9.IH"(1) [OF True] True show ?thesis
      by (auto simp: queued_frames_Cons run_end_def snd_case_Cons split: if_splits)
  qed
qed (auto simp: queued_frames_Cons set_processing_interval_def reset_session_def
       update_known_faces_def)

lemma drive_from_keeps_slot:
  "\<forall>c \<in> set gui. keeps_slot c \<Longrightarrow>
     pending_frame (snd (drive_from L in_pass gui s)) = pending_frame s"
proof (induction L in_pass gui s rule: drive_from.induct)
  case (8 L in_pass t_check t_emit cs s)
  show ?case
  proof (cases in_pass)
    case True
    with 8 show ?thesis by simp
  next
    case False
    define it where "it = run_begin L t_check t_emit s"
    have k: "pending_frame (after it) = pending_frame s"
      using run_begin_kept [of s L t_check t_emit] by (simp add: it_def scheduler_kept_def)
    show ?thesis
    proof (cases "handed it")
      case None
      from "8.IH"(2) [OF False it_def None] "8.prems" False None k show ?thesis
        by (simp add: it_def [symmetric] Let_def)
    next
      case (Some frame)
      from "8.IH"(3) [OF False it_def Some] "8.prems" False Some k show ?thesis
        by (simp add: it_def [symmetric] Let_def snd_case_Cons)
    qed
  qed
qed (auto simp: keeps_slot_def set_processing_interval_def reset_session_def
       update_known_faces_def)

lemma drive_from_snd_Cons:
  "\<exists>b' s1. \<forall>cs. snd (drive_from L b (c # cs) s) = snd (drive_from L b' cs s1)"
proof (cases c)
  case (BeginPass t_check t_emit)
  show ?thesis
  proof (cases b)
    case True
    with BeginPass show ?thesis by auto
  next
    case False
    show ?thesis
    proof (cases "handed (run_begin L t_check t_emit s)")
      case None
      with BeginPass False show ?thesis by (auto simp: Let_def)
    next
      case (Some frame)
      with BeginPass False
      have "\<forall>cs. snd (drive_from L b (c # cs) s)
                   = snd (drive_from L True cs (after (run_begin L t_check t_emit s)))"
        by (simp add: Let_def snd_case_Cons)
      then show ?thesis by blast
    qed
  qed
next
  case (EndPass t_done)
  show ?thesis
  proof (cases b)
    case True
    with EndPass
    have "\<forall>cs. snd (drive_from L b (c # cs) s) = snd (drive_from L False cs (run_end t_done s))"
      by (simp add: snd_case_Cons)
    then show ?thesis by blast
  next
    case False
    with EndPass show ?thesis by auto
  qed
qed auto

lemma drive_from_snd_append:
  "\<exists>b' s1. \<forall>cs. snd (drive_from L b (xs @ cs) s) = snd (drive_from L b' cs s1)"
proof (induction xs arbitrary: b s)
  case Nil
  show ?case by auto
next
  case (Cons c xs)
  from drive_from_snd_Cons [of L b c s]
  obtain b1 s1 where 1: "\<forall>cs. snd (drive_from L b (c # cs) s) = snd (drive_from L b1 cs s1)"
    by blast
  from Cons [of b1 s1]
  obtain b2 s2 where 2: "\<forall>cs. snd (drive_from L b1 (xs @ cs) s1) = snd (drive_from L b2 cs s2)"
    by blast
  from 1 2 have "\<forall>cs. snd (drive_from L b ((c # xs) @ cs) s) = snd (drive_from L b2 cs s2)"
    by simp
  then show ?case by blast
qed

lemma drive_from_latest:
  assumes "\<forall>c \<in> set gui. keeps_slot c"
  shows "pending_frame (snd (drive_from L in_pass (cs @ QueueFrame f # gui) s)) = Some f"
proof -
  from drive_from_snd_append [of L in_pass cs s]
  obtain b' s1 where "snd (drive_from L in_pass (cs @ QueueFrame f # gui) s)
                        = snd (drive_from L b' (QueueFrame f # gui) s1)"
    by blast
  with drive_from_keeps_slot [OF assms, of L b' "queue_frame f s1"] show ?thesis
    by (simp add: queue_frame_def)
qed

lemma drive_from_spaced:
  "1 / 2 \<le> processing_interval s \<Longrightarrow> drive_from L in_pass cs s = (evs, s')
     \<Longrightarrow> spaced (last_processing_time s) evs"
proof (induction L in_pass cs s arbitrary: evs s' rule: drive_from.induct)
  case (1 L in_pass s)
  then show ?case by simp
next
  case (8 L in_pass t_check t_emit cs s)
  show ?case
  proof (cases in_pass)
    case True
    with 8 show ?thesis by simp
  next
    case False
    define it where "it = run_begin L t_check t_emit s"
    have k: "processing_interval (after it) = processing_interval s"
      "last_processing_time (after it) = last_processing_time s"
      using run_begin_kept [of s L t_check t_emit] by (simp_all add: it_def scheduler_kept_def)
    show ?thesis
    proof (cases "handed it")
      case None
      from "8.prems" False None have d: "drive_from L False cs (after it) = (evs, s')"
        by (simp add: it_def Let_def)
      from "8.IH"(2) [OF False it_def None _ d] "8.prems"(1) k show ?thesis by simp
    next
      case (Some frame)
      obtain evs1 s1 where d: "drive_from L True cs (after it) = (evs1, s1)" by force
      from "8.prems" False Some d
      have evs: "evs = Handed t_check frame (emitted it) # evs1"
        by (simp add: it_def Let_def)
      from Some run_begin_handed [of L t_check t_emit s]
      have "should_process_frame t_check s"
        by (auto simp: it_def split: if_splits)
      with "8.prems"(1) have gap: "1 / 2 \<le> t_check - last_processing_time s"
        by (simp add: should_process_frame_def)
      from "8.IH"(3) [OF False it_def Some _ d] "8.prems"(1) k
      have "spaced (last_processing_time s) evs1" by simp
      with gap show ?thesis by (simp add: evs)
    qed
  qed
next
  case (9 L in_pass t_done cs s)
  show ?case
  proof (cases in_pass)
    case False
    with 9 show ?thesis by simp
  next
    case True
    obtain evs1 s1 where d: "drive_from L False cs (run_end t_done s) = (evs1, s1)" by force
    from "9.prems" True d have evs: "evs = Stamped t_done # evs1" by simp
    from "9.IH"(1) [OF True _ d] "9.prems"(1)
    have "spaced t_done evs1" by (simp add: run_end_def)
    then show ?thesis by (simp add: evs)
  qed
qed (auto simp: queue_frame_def set_processing_interval_def reset_session_def
       update_known_faces_def)

text \<open>
  C4.  The pending-frame slot holds at most one frame.  \<open>queue_frame\<close> replaces whatever the
  slot holds, so after any non-empty sequence of \<open>queue_frame\<close> calls the slot holds the
  last frame queued, and the next pass of the loop hands exactly that frame to
  \<open>process_frame\<close>, or nothing when the interval has not elapsed.  A pass over an empty slot
  hands nothing, and a pass that hands a frame hands the pending one.  The end of a pass
  clears the slot, also of a frame that arrived while \<open>process_frame\<close> ran, and the pass
  after it hands nothing unless a frame is queued again.  Over every history: the slot
  holds the most recently queued frame as long as no pass has ended since; the frame the
  next pass hands is the most recently queued frame, or none; and the frames handed to
  \<open>process_frame\<close> are obtained from the frames queued by dropping frames, so that each
  queued frame is processed at most once.
\<close>

theorem single_slot:
  "pending_frame (queue_frame f s) = Some f
   \<and> (fs \<noteq> [] \<longrightarrow>
        pending_frame (fold queue_frame fs s) = Some (last fs)
        \<and> handed (run_begin L a b (fold queue_frame fs s))
            = (if should_process_frame a s then Some (last fs) else None))
   \<and> (pending_frame s_idle = None \<longrightarrow> handed (run_begin L a b s_idle) = None)
   \<and> (handed (run_begin L a b s_busy) \<noteq> None \<longrightarrow>
        handed (run_begin L a b s_busy) = pending_frame s_busy)
   \<and> pending_frame (run_end c (fold queue_frame during (after (run_begin L a b s)))) = None
   \<and> handed (run_begin L a' b' (run_end c (fold queue_frame during (after (run_begin L a b s)))))
       = None
   \<and> ((\<forall>x \<in> set gui. keeps_slot x) \<longrightarrow>
        pending_frame (snd (drive_from L in_pass (cs @ QueueFrame f # gui) s)) = Some f)
   \<and> (handed (run_begin L a b (snd (drive_from L in_pass cs s))) = None
        \<or> handed (run_begin L a b (snd (drive_from L in_pass cs s)))
            = (if queued_frames cs = [] then pending_frame s
               else Some (last (queued_frames cs))))
   \<and> (pending_frame s0 = None \<longrightarrow>
        subseq (handed_frames (fst (drive L cs s0))) (queued_frames cs))"
proof (intro conjI impI)
  show "pending_frame (queue_frame f s) = Some f"
    by (simp add: queue_frame_def)
next
  assume "fs \<noteq> []"
  then show "pending_frame (fold queue_frame fs s) = Some (last fs)"
    by (simp add: fold_queue_frame)
next
  assume "fs \<noteq> []"
  then show "handed (run_begin L a b (fold queue_frame fs s))
            = (if should_process_frame a s then Some (last fs) else None)"
    by (simp add: fold_queue_frame run_begin_handed should_process_frame_def)
next
  assume "pending_frame s_idle = None"
  then show "handed (run_begin L a b s_idle) = None"
    by (simp add: run_begin_handed)
next
  assume "handed (run_begin L a b s_busy) \<noteq> None"
  then show "handed (run_begin L a b s_busy) = pending_frame s_busy"
    by (auto simp: run_begin_handed split: if_splits)
next
  show p: "pending_frame (run_end c (fold queue_frame during (after (run_begin L a b s)))) = None"
    by (simp add: run_end_def)
  then show "handed (run_begin L a' b'
                 (run_end c (fold queue_frame during (after (run_begin L a b s))))) = None"
    by (simp add: run_begin_handed)
next
  assume "\<forall>x \<in> set gui. keeps_slot x"
  then show "pending_frame (snd (drive_from L in_pass (cs @ QueueFrame f # gui) s)) = Some f"
    by (rule drive_from_latest)
next
  from drive_from_slot [of L in_pass cs s]
  show "handed (run_begin L a b (snd (drive_from L in_pass cs s))) = None
        \<or> handed (run_begin L a b (snd (drive_from L in_pass cs s)))
            = (if queued_frames cs = [] then pending_frame s
               else Some (last (queued_frames cs)))"
    by (auto simp: run_begin_handed)
next
  assume "pending_frame s0 = None"
  with drive_from_subseq [of L False cs s0 "fst (drive L cs s0)" "snd (drive L cs s0)"]
  show "subseq (handed_frames (fst (drive L cs s0))) (queued_frames cs)"
    by (simp add: drive_def)
qed

lemma demo_events:
  "map (\<lambda>ev. case ev of Handed t f sig \<Rightarrow> (t, Some f) | Stamped t \<Rightarrow> (t, None))
     (fst (drive demo_lib demo_calls demo_worker))
   = [(10, Some [[6]]), (11, None), (12, Some [[7]]), (13, None)]"
  by (simp add: drive_def demo_lib_def demo_calls_def demo_worker_def DetectionWorker_init_def
      queue_frame_def run_begin_def run_end_def should_process_frame_def
      set_processing_interval_def process_frame_def process_single_face_def
      face_distance_def argmin_def process_known_face_def crop_def threshold_def Let_def)

lemma demo_handed: "handed_frames (fst (drive demo_lib demo_calls demo_worker)) = [[[6]], [[7]]]"
  by (simp add: drive_def demo_lib_def demo_calls_def demo_worker_def DetectionWorker_init_def
      queue_frame_def run_begin_def run_end_def should_process_frame_def
      set_processing_interval_def process_frame_def process_single_face_def
      face_distance_def argmin_def process_known_face_def crop_def threshold_def Let_def
      handed_frames_def)

theorem single_slot_witness:
  "[[[5]], [[6 :: nat]]] \<noteq> []
   \<and> pending_frame demo_worker = None
   \<and> handed (run_begin demo_lib 10 10 (queue_frame [[6]] (demo_worker\<lparr>running := True\<rparr>)))
       \<noteq> None
   \<and> keeps_slot (Start :: nat call) \<and> keeps_slot (BeginPass 10 10 :: nat call)
   \<and> pending_frame (fold queue_frame [[[5]], [[6]]] demo_worker) = Some [[6]]
   \<and> handed (run_begin demo_lib 10 10 (fold queue_frame [[[5]], [[6]]] demo_worker))
       = Some [[6]]
   \<and> pending_frame (run_end 11 (fold queue_frame [[[8]]]
        (after (run_begin demo_lib 10 10 (queue_frame [[6]] (demo_worker\<lparr>running := True\<rparr>))))))
       = None
   \<and> handed (run_begin demo_lib 12 12 (run_end 11 (fold queue_frame [[[8]]]
        (after (run_begin demo_lib 10 10 (queue_frame [[6]] (demo_worker\<lparr>running := True\<rparr>)))))))
       = None
   \<and> pending_frame (snd (drive_from demo_lib False
        ([QueueFrame [[5]]] @ QueueFrame [[6]] # [Start, BeginPass 10 10]) demo_worker))
       = Some [[6]]
   \<and> queued_frames demo_calls = [[[5]], [[6]], [[8]], [[7]]]
   \<and> handed_frames (fst (drive demo_lib demo_calls demo_worker)) = [[[6]], [[7]]]
   \<and> subseq (handed_frames (fst (drive demo_lib demo_calls demo_worker)))
        (queued_frames demo_calls)"
proof -
  have h: "handed (run_begin demo_lib 10 10
                     (queue_frame [[6]] (demo_worker\<lparr>running := True\<rparr>))) \<noteq> None"
    by (simp add: run_begin_handed should_process_frame_def queue_frame_def
        demo_worker_def DetectionWorker_init_def)
  have q: "queued_frames demo_calls = [[[5]], [[6]], [[8]], [[7]]]"
    by (simp add: queued_frames_def demo_calls_def)
  have i: "should_process_frame 10 demo_worker"
    by (simp add: should_process_frame_def demo_worker_def DetectionWorker_init_def)
  have p: "pending_frame demo_worker = None"
    by (simp add: demo_worker_def DetectionWorker_init_def)
  have k: "\<forall>x \<in> set [Start, BeginPass 10 10 :: nat call]. keeps_slot x"
    "keeps_slot (Start :: nat call)" "keeps_slot (BeginPass 10 10 :: nat call)"
    by (simp_all add: keeps_slot_def)
  from single_slot [where fs = "[[[5]], [[6]]]" and s = demo_worker and L = demo_lib
      and a = 10 and b = 10 and s_idle = demo_worker
      and s_busy = "queue_frame [[6]] (demo_worker\<lparr>running := True\<rparr>)"
      and ?s0.0 = demo_worker and cs = demo_calls]
    i p q demo_handed
  have one: "pending_frame (fold queue_frame [[[5]], [[6]]] demo_worker) = Some [[6]]"
    "handed (run_begin demo_lib 10 10 (fold queue_frame [[[5]], [[6]]] demo_worker)) = Some [[6]]"
    "subseq (handed_frames (fst (drive demo_lib demo_calls demo_worker)))
        (queued_frames demo_calls)"
    by simp_all
  from single_slot [where s = "queue_frame [[6]] (demo_worker\<lparr>running := True\<rparr>)"
      and L = demo_lib and a = 10 and b = 10 and c = 11 and a' = 12 and b' = 12
      and during = "[[[8]]]"]
  have two: "pending_frame (run_end 11 (fold queue_frame [[[8]]]
        (after (run_begin demo_lib 10 10 (queue_frame [[6]] (demo_worker\<lparr>running := True\<rparr>))))))
       = None"
    "handed (run_begin demo_lib 12 12 (run_end 11 (fold queue_frame [[[8]]]
        (after (run_begin demo_lib 10 10 (queue_frame [[6]] (demo_worker\<lparr>running := True\<rparr>)))))))
       = None"
    by blast+
  from single_slot [where gui = "[Start, BeginPass 10 10]" and L = demo_lib
      and in_pass = False and cs = "[QueueFrame [[5]]]" and f = "[[6]]" and s = demo_worker] k(1)
  have three: "pending_frame (snd (drive_from demo_lib False
        ([QueueFrame [[5]]] @ QueueFrame [[6]] # [Start, BeginPass 10 10]) demo_worker))
       = Some [[6]]"
    by blast
  from one two three h p q k(2,3) demo_handed show ?thesis by simp
qed

section \<open>The processing interval\<close>

text \<open>
  C5.  \<open>set_processing_interval\<close> clamps its argument to a floor of 0.5 seconds: an argument
  of at least 0.5 is stored as it is, an argument below 0.5 is stored as 0.5, nothing else
  of the worker is changed, and so the interval is at least 0.5 after every call; a new
  worker has the interval 2.  The loop hands the pending frame to \<open>process_frame\<close> exactly
  when there is one and the clock reading minus \<open>last_processing_time\<close> is at least the
  interval.  Hence over every history (whatever intervals are configured on the way) each
  processing call starts at least 0.5 seconds after the time stored at the end of the
  previous one.
\<close>

theorem interval_floor:
  "(1 / 2 \<le> x_high \<longrightarrow> processing_interval (set_processing_interval x_high s) = x_high)
   \<and> (x_low < 1 / 2 \<longrightarrow> processing_interval (set_processing_interval x_low s) = 1 / 2)
   \<and> set_processing_interval x s = s\<lparr>processing_interval := processing_interval (set_processing_interval x s)\<rparr>
   \<and> 1 / 2 \<le> processing_interval (set_processing_interval x s)
   \<and> processing_interval (DetectionWorker_init encs names :: 'p DetectionWorker) = 2
   \<and> (handed (run_begin L a b s) \<noteq> None \<longleftrightarrow>
        pending_frame s \<noteq> None \<and> processing_interval s \<le> a - last_processing_time s)
   \<and> (1 / 2 \<le> processing_interval s0 \<longrightarrow>
        spaced (last_processing_time s0) (fst (drive L cs s0)))"
proof (intro conjI impI)
  assume "1 / 2 \<le> x_high"
  then show "processing_interval (set_processing_interval x_high s) = x_high"
    by (simp add: set_processing_interval_def max_def)
next
  assume "x_low < 1 / 2"
  then show "processing_interval (set_processing_interval x_low s) = 1 / 2"
    by (simp add: set_processing_interval_def max_def)
next
  show "set_processing_interval x s
          = s\<lparr>processing_interval := processing_interval (set_processing_interval x s)\<rparr>"
    by (simp add: set_processing_interval_def)
next
  show "1 / 2 \<le> processing_interval (set_processing_interval x s)"
    by (simp add: set_processing_interval_def)
next
  show "processing_interval (DetectionWorker_init encs names :: 'p DetectionWorker) = 2"
    by (simp add: DetectionWorker_init_def)
next
  show "handed (run_begin L a b s) \<noteq> None \<longleftrightarrow>
        pending_frame s \<noteq> None \<and> processing_interval s \<le> a - last_processing_time s"
    by (simp add: run_begin_handed should_process_frame_def)
next
  assume "1 / 2 \<le> processing_interval s0"
  then show "spaced (last_processing_time s0) (fst (drive L cs s0))"
    unfolding drive_def by (rule drive_from_spaced) (rule prod.collapse [symmetric])
qed

theorem interval_floor_witness:
  "(1 / 2 :: real) \<le> 3 \<and> (1 / 10 :: real) < 1 / 2
   \<and> processing_interval (set_processing_interval 3 demo_worker) = 3
   \<and> processing_interval (set_processing_interval (1 / 10) demo_worker) = 1 / 2
   \<and> handed (run_begin demo_lib 10 10 (queue_frame [[6]] demo_worker)) \<noteq> None
   \<and> 1 / 2 \<le> processing_interval demo_worker
   \<and> map (\<lambda>ev. case ev of Handed t f sig \<Rightarrow> (t, Some f) | Stamped t \<Rightarrow> (t, None))
        (fst (drive demo_lib demo_calls demo_worker))
       = [(10, Some [[6]]), (11, None), (12, Some [[7]]), (13, None)]
   \<and> spaced (last_processing_time demo_worker) (fst (drive demo_lib demo_calls demo_worker))"
proof -
  have h: "handed (run_begin demo_lib 10 10 (queue_frame [[6]] demo_worker)) \<noteq> None"
    by (simp add: run_begin_handed should_process_frame_def queue_frame_def
        demo_worker_def DetectionWorker_init_def)
  have p: "1 / 2 \<le> processing_interval demo_worker"
    by (simp add: demo_worker_def DetectionWorker_init_def)
  have c: "(1 / 2 :: real) \<le> 3" "(1 / 10 :: real) < 1 / 2" by simp_all
  from interval_floor [where x_high = 3 and x_low = "1 / 10" and s = demo_worker
      and ?s0.0 = demo_worker and cs = demo_calls and L = demo_lib and x = 3 and a = 10
      and b = 10 and encs = "[]" and names = "[]"]
    p c
  have "processing_interval (set_processing_interval 3 demo_worker) = 3"
    "processing_interval (set_processing_interval (1 / 10) demo_worker) = 1 / 2"
    "spaced (last_processing_time demo_worker) (fst (drive demo_lib demo_calls demo_worker))"
    by blast+
  with h p c demo_events show ?thesis by simp
qed

section \<open>The detection hash\<close>

lemma md5_test_vectors:
  "md5_hexdigest (encode '''') = ''d41d8cd98f00b204e9800998ecf8427e''"
  "md5_hexdigest (encode ''abc'') = ''900150983cd24fb0d6963f7d28e17f72''"
  by code_simp+




















section \<open>Registration of a face\<close>

lemma strip_whitespace_only: "\<forall>c \<in> set nm. isspace c \<Longrightarrow> strip nm = []"
proof -
  assume "\<forall>c \<in> set nm. isspace c"
  then have d: "dropWhile isspace nm = []" by simp
  show ?thesis unfolding strip_def d by simp
qed

lemma register_failure_unchanged:
  "\<not> success (register_unknown_face env crp h nm fm)
     \<Longrightarrow> manager (register_unknown_face env crp h nm fm) = fm"
  by (auto simp: register_unknown_face_def Let_def split: if_splits option.splits)

lemma register_success_name:
  "success (register_unknown_face env crp h nm fm)
     \<Longrightarrow> strip nm \<in> set (known_face_names (manager (register_unknown_face env crp h nm fm)))"
  by (auto simp: register_unknown_face_def Let_def split: if_splits option.splits)

lemma register_duplicate:
  "strip nm \<in> set (known_face_names fm) \<Longrightarrow> \<not> success (register_unknown_face env crp h nm fm)"
  by (auto simp: register_unknown_face_def Let_def)

lemma register_success_iff:
  "success (register_unknown_face env crp h nm fm) \<longleftrightarrow>
     nm \<noteq> [] \<and> strip nm \<noteq> [] \<and> strip nm \<notin> set (known_face_names fm)
     \<and> (\<exists>rgb e es. cvtColor_BGR2RGB env (as_uint8 env crp) = Some rgb
           \<and> face_encodings env (as_uint8 env rgb) = Some (e # es)
           \<and> imwrite env (path_join (faces_dir fm) (strip nm @ ''_'' @ now_strftime env @ ''.jpg''))
                 (as_uint8 env crp) = Some True)"
proof (cases "nm = [] \<or> strip nm = [] \<or> strip nm \<in> set (known_face_names fm)")
  case True
  then show ?thesis by (auto simp: register_unknown_face_def Let_def)
next
  case False
  show ?thesis
  proof (cases "cvtColor_BGR2RGB env (as_uint8 env crp)")
    case None
    with False show ?thesis by (simp add: register_unknown_face_def Let_def)
  next
    case (Some rgb)
    show ?thesis
    proof (cases "face_encodings env (as_uint8 env rgb)")
      case None
      with False Some show ?thesis by (simp add: register_unknown_face_def Let_def)
    next
      case encs: (Some encodings)
      show ?thesis
      proof (cases encodings)
        case Nil
        with False Some encs show ?thesis by (simp add: register_unknown_face_def Let_def)
      next
        case (Cons e es)
        with False Some encs show ?thesis
          by (cases "imwrite env (path_join (faces_dir fm) (strip nm @ ''_'' @ now_strftime env @ ''.jpg''))
                 (as_uint8 env crp)")
            (simp_all add: register_unknown_face_def Let_def)
      qed
    qed
  qed
qed

lemma register_success_manager:
  assumes "success (register_unknown_face env crp h nm fm)"
    and "cvtColor_BGR2RGB env (as_uint8 env crp) = Some rgb"
    and "face_encodings env (as_uint8 env rgb) = Some (e # es)"
  shows "manager (register_unknown_face env crp h nm fm)
           = fm\<lparr>known_face_encodings := known_face_encodings fm @ [e],
                 known_face_names := known_face_names fm @ [strip nm],
                 known_face_images := (known_face_images fm)(strip nm \<mapsto> as_uint8 env crp)\<rparr>
         \<and> effects (register_unknown_face env crp h nm fm)
           = [ImageWritten (path_join (faces_dir fm) (strip nm @ ''_'' @ now_strftime env @ ''.jpg''))
                (as_uint8 env crp)]
             @ snd (save_persistent_encodings env (manager (register_unknown_face env crp h nm fm)))
             @ [Log INFO ''Successfully registered as known face'']"
proof -
  from assms(1) have v: "nm \<noteq> []" "strip nm \<noteq> []" "strip nm \<notin> set (known_face_names fm)"
    and w: "imwrite env (path_join (faces_dir fm) (strip nm @ ''_'' @ now_strftime env @ ''.jpg''))
                 (as_uint8 env crp) = Some True"
    using assms(2,3) by (auto simp: register_success_iff)
  from v w assms(2,3) show ?thesis
    by (simp add: register_unknown_face_def Let_def)
qed

lemma as_uint8_dump: "as_uint8 (env\<lparr>pickle_dump_ok := b\<rparr>) x = as_uint8 env x"
  by (simp add: as_uint8_def)

lemma register_dump_independent:
  "success (register_unknown_face (env\<lparr>pickle_dump_ok := b\<rparr>) crp h nm fm)
     = success (register_unknown_face env crp h nm fm)
   \<and> manager (register_unknown_face (env\<lparr>pickle_dump_ok := b\<rparr>) crp h nm fm)
     = manager (register_unknown_face env crp h nm fm)"
proof -
  have s: "success (register_unknown_face (env\<lparr>pickle_dump_ok := b\<rparr>) crp h nm fm)
     = success (register_unknown_face env crp h nm fm)"
    by (simp add: register_success_iff as_uint8_dump)
  show ?thesis
  proof (cases "success (register_unknown_face env crp h nm fm)")
    case False
    with s register_failure_unchanged [of env crp h nm fm]
      register_failure_unchanged [of "env\<lparr>pickle_dump_ok := b\<rparr>" crp h nm fm]
    show ?thesis by simp
  next
    case True
    then obtain rgb e es where c: "cvtColor_BGR2RGB env (as_uint8 env crp) = Some rgb"
        "face_encodings env (as_uint8 env rgb) = Some (e # es)"
      by (auto simp: register_success_iff)
    from True s have t: "success (register_unknown_face (env\<lparr>pickle_dump_ok := b\<rparr>) crp h nm fm)"
      by simp
    from c have c': "cvtColor_BGR2RGB (env\<lparr>pickle_dump_ok := b\<rparr>)
                        (as_uint8 (env\<lparr>pickle_dump_ok := b\<rparr>) crp) = Some rgb"
        "face_encodings (env\<lparr>pickle_dump_ok := b\<rparr>)
           (as_uint8 (env\<lparr>pickle_dump_ok := b\<rparr>) rgb) = Some (e # es)"
      by (simp_all add: as_uint8_dump)
    from register_success_manager [OF True c] register_success_manager [OF t c'] s
    show ?thesis by (simp add: as_uint8_dump)
  qed
qed

lemma strip_examples:
  "strip ''  '' = []" "strip '' Alice '' = ''Alice''" "strip '' Bob '' = ''Bob''" "strip ''Bob'' = ''Bob''"
  by (simp_all add: strip_def isspace_def)

lemma demo_register_bob: "success (register_unknown_face demo_cv 5 ''h'' ''Bob'' demo_manager)"
  by (simp add: register_success_iff strip_examples demo_cv_def demo_manager_def as_uint8_def)

text \<open>
  C8.  \<open>register_unknown_face\<close> returns failure when the name is empty or consists of
  whitespace only, when the stripped name is already among the known names, and when no
  encoding can be computed from the face crop (the conversion or \<open>face_encodings\<close> raises,
  or no face is found).  In particular, after a successful registration a
  second call with the same name (whatever the crop and the environment) returns failure
  and leaves the registry as it is; and two calls with the same arguments in the same
  environment make the second one fail with the number of known names unchanged.
\<close>

theorem register_failure_cases:
  "(name_blank = [] \<or> (\<forall>c \<in> set name_blank. isspace c) \<longrightarrow>
      \<not> success (register_unknown_face env crp h name_blank fm))
   \<and> (strip name_dup \<in> set (known_face_names fm_dup) \<longrightarrow>
        \<not> success (register_unknown_face env crp h name_dup fm_dup))
   \<and> ((\<forall>rgb e es. cvtColor_BGR2RGB env_noface (as_uint8 env_noface crp_noface) = Some rgb
                    \<longrightarrow> face_encodings env_noface (as_uint8 env_noface rgb) \<noteq> Some (e # es)) \<longrightarrow>
        \<not> success (register_unknown_face env_noface crp_noface h nm fm))
   \<and> (success (register_unknown_face env1 crp1 h1 nm1 fm1) \<longrightarrow>
        \<not> success (register_unknown_face env2 crp2 h2 nm1
                      (manager (register_unknown_face env1 crp1 h1 nm1 fm1)))
        \<and> manager (register_unknown_face env2 crp2 h2 nm1
                      (manager (register_unknown_face env1 crp1 h1 nm1 fm1)))
            = manager (register_unknown_face env1 crp1 h1 nm1 fm1))
   \<and> \<not> success (register_unknown_face env crp h' nm
                  (manager (register_unknown_face env crp h nm fm)))
   \<and> length (known_face_names (manager (register_unknown_face env crp h' nm
                  (manager (register_unknown_face env crp h nm fm)))))
       = length (known_face_names (manager (register_unknown_face env crp h nm fm)))"
proof (intro conjI impI)
  assume "name_blank = [] \<or> (\<forall>c \<in> set name_blank. isspace c)"
  then have "name_blank = [] \<or> strip name_blank = []"
    using strip_whitespace_only by blast
  then show "\<not> success (register_unknown_face env crp h name_blank fm)"
    by (auto simp: register_unknown_face_def)
next
  assume "strip name_dup \<in> set (known_face_names fm_dup)"
  then show "\<not> success (register_unknown_face env crp h name_dup fm_dup)"
    by (rule register_duplicate)
next
  assume "\<forall>rgb e es. cvtColor_BGR2RGB env_noface (as_uint8 env_noface crp_noface) = Some rgb
                    \<longrightarrow> face_encodings env_noface (as_uint8 env_noface rgb) \<noteq> Some (e # es)"
  then show "\<not> success (register_unknown_face env_noface crp_noface h nm fm)"
    by (auto simp: register_success_iff)
next
  assume s: "success (register_unknown_face env1 crp1 h1 nm1 fm1)"
  from register_duplicate [OF register_success_name [OF s]]
  show f: "\<not> success (register_unknown_face env2 crp2 h2 nm1
                      (manager (register_unknown_face env1 crp1 h1 nm1 fm1)))" .
  then show "manager (register_unknown_face env2 crp2 h2 nm1
                      (manager (register_unknown_face env1 crp1 h1 nm1 fm1)))
            = manager (register_unknown_face env1 crp1 h1 nm1 fm1)"
    by (rule register_failure_unchanged)
next
  have indep: "success (register_unknown_face env crp h' nm fm') = success (register_unknown_face env crp h nm fm')" for fm'
    by (simp add: register_unknown_face_def)
  show f: "\<not> success (register_unknown_face env crp h' nm
                  (manager (register_unknown_face env crp h nm fm)))"
  proof (cases "success (register_unknown_face env crp h nm fm)")
    case True
    from register_duplicate [OF register_success_name [OF True]] show ?thesis .
  next
    case False
    with register_failure_unchanged [OF False] indep [of fm] show ?thesis by simp
  qed
  from register_failure_unchanged [OF f]
  show "length (known_face_names (manager (register_unknown_face env crp h' nm
                  (manager (register_unknown_face env crp h nm fm)))))
       = length (known_face_names (manager (register_unknown_face env crp h nm fm)))"
    by simp
qed

theorem register_failure_cases_witness:
  "(''  '' = [] \<or> (\<forall>c \<in> set ''  ''. isspace c))
   \<and> strip '' Alice '' \<in> set (known_face_names demo_manager)
   \<and> cvtColor_BGR2RGB demo_cv (as_uint8 demo_cv 0) = Some 0
   \<and> face_encodings demo_cv (as_uint8 demo_cv 0) = Some []
   \<and> success (register_unknown_face demo_cv 5 ''h'' ''Bob'' demo_manager)
   \<and> \<not> success (register_unknown_face demo_cv 5 ''h'' ''  '' demo_manager)
   \<and> \<not> success (register_unknown_face demo_cv 5 ''h'' '' Alice '' demo_manager)
   \<and> \<not> success (register_unknown_face demo_cv 0 ''h'' ''Bob'' demo_manager)
   \<and> \<not> success (register_unknown_face demo_cv 6 ''g'' ''Bob''
                  (manager (register_unknown_face demo_cv 5 ''h'' ''Bob'' demo_manager)))
   \<and> manager (register_unknown_face demo_cv 6 ''g'' ''Bob''
                  (manager (register_unknown_face demo_cv 5 ''h'' ''Bob'' demo_manager)))
       = manager (register_unknown_face demo_cv 5 ''h'' ''Bob'' demo_manager)"
proof -
  have h: "''  '' = [] \<or> (\<forall>c \<in> set ''  ''. isspace c)"
    "strip '' Alice '' \<in> set (known_face_names demo_manager)"
    "\<forall>rgb e es. cvtColor_BGR2RGB demo_cv (as_uint8 demo_cv 0) = Some rgb
                   \<longrightarrow> face_encodings demo_cv (as_uint8 demo_cv rgb) \<noteq> Some (e # es)"
    "cvtColor_BGR2RGB demo_cv (as_uint8 demo_cv 0) = Some 0"
    "face_encodings demo_cv (as_uint8 demo_cv 0) = Some []"
    by (auto simp: isspace_def strip_examples demo_manager_def demo_cv_def as_uint8_def)
  from register_failure_cases [where name_blank = "''  ''" and env = demo_cv and crp = 5
      and h = "''h''" and fm = demo_manager and name_dup = "'' Alice ''" and fm_dup = demo_manager
      and env_noface = demo_cv and crp_noface = 0 and nm = "''Bob''"
      and ?env1.0 = demo_cv and ?crp1.0 = 5 and ?h1.0 = "''h''" and ?nm1.0 = "''Bob''"
      and ?fm1.0 = demo_manager and ?env2.0 = demo_cv and ?crp2.0 = 6 and ?h2.0 = "''g''"]
    h demo_register_bob
  show ?thesis by simp
qed

text \<open>
  C9.  A failure to write the snapshot of the encodings during \<open>register_unknown_face\<close> is
  not fatal to the update in memory: when the name is valid and new, an encoding is found and
  the image file is written, but the write of the snapshot fails, the call still reports
  success, the new encoding, name and image are appended to the registry in memory, the
  failure is logged as an error, and the registry is the same as the one a successful write
  would have left.
\<close>

theorem snapshot_failure_not_fatal:
  assumes "name0 \<noteq> []" and "strip name0 \<noteq> []"
    and "strip name0 \<notin> set (known_face_names fm)"
    and "cvtColor_BGR2RGB env (as_uint8 env crp) = Some rgb"
    and "face_encodings env (as_uint8 env rgb) = Some (e # es)"
    and "imwrite env (path_join (faces_dir fm) (strip name0 @ ''_'' @ now_strftime env @ ''.jpg''))
           (as_uint8 env crp) = Some True"
    and "\<not> pickle_dump_ok env"
  shows "success (register_unknown_face env crp h name0 fm)
     \<and> known_face_encodings (manager (register_unknown_face env crp h name0 fm))
         = known_face_encodings fm @ [e]
     \<and> known_face_names (manager (register_unknown_face env crp h name0 fm))
         = known_face_names fm @ [strip name0]
     \<and> known_face_images (manager (register_unknown_face env crp h name0 fm))
         = (known_face_images fm)(strip name0 \<mapsto> as_uint8 env crp)
     \<and> \<not> fst (save_persistent_encodings env (manager (register_unknown_face env crp h name0 fm)))
     \<and> Log ERROR ''Error saving persistent encodings''
         \<in> set (effects (register_unknown_face env crp h name0 fm))
     \<and> manager (register_unknown_face env crp h name0 fm)
         = manager (register_unknown_face (env\<lparr>pickle_dump_ok := True\<rparr>) crp h name0 fm)"
proof -
  have s: "success (register_unknown_face env crp h name0 fm)"
    using assms(1-6) by (auto simp: register_success_iff)
  from register_success_manager [OF s assms(4,5)] assms(7) s
    register_dump_independent [where env = env and b = True and crp = crp and h = h
      and nm = name0 and fm = fm]
  show ?thesis by (simp add: save_persistent_encodings_def)
qed

theorem snapshot_failure_not_fatal_witness:
  "'' Bob '' \<noteq> [] \<and> strip '' Bob '' \<noteq> []
   \<and> strip '' Bob '' \<notin> set (known_face_names demo_manager)
   \<and> cvtColor_BGR2RGB (demo_cv\<lparr>pickle_dump_ok := False\<rparr>)
        (as_uint8 (demo_cv\<lparr>pickle_dump_ok := False\<rparr>) 5) = Some 5
   \<and> face_encodings (demo_cv\<lparr>pickle_dump_ok := False\<rparr>)
        (as_uint8 (demo_cv\<lparr>pickle_dump_ok := False\<rparr>) 5) = Some [[5, 2]]
   \<and> imwrite (demo_cv\<lparr>pickle_dump_ok := False\<rparr>)
        (path_join (faces_dir demo_manager)
           (strip '' Bob '' @ ''_'' @ now_strftime (demo_cv\<lparr>pickle_dump_ok := False\<rparr>) @ ''.jpg''))
        (as_uint8 (demo_cv\<lparr>pickle_dump_ok := False\<rparr>) 5) = Some True
   \<and> \<not> pickle_dump_ok (demo_cv\<lparr>pickle_dump_ok := False\<rparr>)
   \<and> success (register_unknown_face (demo_cv\<lparr>pickle_dump_ok := False\<rparr>) 5 ''h'' '' Bob ''
                demo_manager)
   \<and> known_face_names (manager (register_unknown_face (demo_cv\<lparr>pickle_dump_ok := False\<rparr>)
                                   5 ''h'' '' Bob '' demo_manager)) = [''Alice'', ''Bob'']
   \<and> Log ERROR ''Error saving persistent encodings''
        \<in> set (effects (register_unknown_face (demo_cv\<lparr>pickle_dump_ok := False\<rparr>)
                          5 ''h'' '' Bob '' demo_manager))"
proof -
  have h: "'' Bob '' \<noteq> []" "strip '' Bob '' \<noteq> []"
    "strip '' Bob '' \<notin> set (known_face_names demo_manager)"
    "cvtColor_BGR2RGB (demo_cv\<lparr>pickle_dump_ok := False\<rparr>)
        (as_uint8 (demo_cv\<lparr>pickle_dump_ok := False\<rparr>) 5) = Some 5"
    "face_encodings (demo_cv\<lparr>pickle_dump_ok := False\<rparr>)
        (as_uint8 (demo_cv\<lparr>pickle_dump_ok := False\<rparr>) 5) = Some ([5, 2] # [])"
    "imwrite (demo_cv\<lparr>pickle_dump_ok := False\<rparr>)
        (path_join (faces_dir demo_manager)
           (strip '' Bob '' @ ''_'' @ now_strftime (demo_cv\<lparr>pickle_dump_ok := False\<rparr>) @ ''.jpg''))
        (as_uint8 (demo_cv\<lparr>pickle_dump_ok := False\<rparr>) 5) = Some True"
    "\<not> pickle_dump_ok (demo_cv\<lparr>pickle_dump_ok := False\<rparr>)"
    by (simp_all add: strip_examples demo_manager_def demo_cv_def as_uint8_def)
  have n: "known_face_names demo_manager @ [strip '' Bob ''] = [''Alice'', ''Bob'']"
    by (simp add: strip_examples demo_manager_def)
  from snapshot_failure_not_fatal [OF h, of "''h''"] h
  show ?thesis unfolding n by blast
qed

text \<open>
  C10.  Whenever \<open>register_unknown_face\<close> returns failure, the registry in memory (encodings,
  names, images) is exactly what it was before the call.  This includes the failure to write
  the image file to the faces directory: when \<open>cv2.imwrite\<close> does not report success the
  call returns failure and nothing is changed.
\<close>

theorem register_failure_leaves_registry:
  "(\<not> success (register_unknown_face env crp h nm fm) \<longrightarrow>
      manager (register_unknown_face env crp h nm fm) = fm)
   \<and> (imwrite env_w (path_join (faces_dir fm_w) (strip nm_w @ ''_'' @ now_strftime env_w @ ''.jpg''))
         (as_uint8 env_w crp_w) \<noteq> Some True \<longrightarrow>
        \<not> success (register_unknown_face env_w crp_w h nm_w fm_w)
        \<and> manager (register_unknown_face env_w crp_w h nm_w fm_w) = fm_w)"
proof (intro conjI impI)
  assume "\<not> success (register_unknown_face env crp h nm fm)"
  then show "manager (register_unknown_face env crp h nm fm) = fm"
    by (rule register_failure_unchanged)
next
  assume "imwrite env_w (path_join (faces_dir fm_w) (strip nm_w @ ''_'' @ now_strftime env_w @ ''.jpg''))
         (as_uint8 env_w crp_w) \<noteq> Some True"
  then show f: "\<not> success (register_unknown_face env_w crp_w h nm_w fm_w)"
    by (simp add: register_success_iff)
  then show "manager (register_unknown_face env_w crp_w h nm_w fm_w) = fm_w"
    by (rule register_failure_unchanged)
qed

theorem register_failure_leaves_registry_witness:
  "\<not> success (register_unknown_face demo_cv 0 ''h'' ''Bob'' demo_manager)
   \<and> imwrite (demo_cv\<lparr>imwrite := \<lambda>p i. Some False\<rparr>)
        (path_join (faces_dir demo_manager)
           (strip ''Bob'' @ ''_'' @ now_strftime (demo_cv\<lparr>imwrite := \<lambda>p i. Some False\<rparr>) @ ''.jpg''))
        (as_uint8 (demo_cv\<lparr>imwrite := \<lambda>p i. Some False\<rparr>) 5) \<noteq> Some True
   \<and> manager (register_unknown_face demo_cv 0 ''h'' ''Bob'' demo_manager) = demo_manager
   \<and> \<not> success (register_unknown_face (demo_cv\<lparr>imwrite := \<lambda>p i. Some False\<rparr>) 5 ''h'' ''Bob''
                  demo_manager)
   \<and> manager (register_unknown_face (demo_cv\<lparr>imwrite := \<lambda>p i. Some False\<rparr>) 5 ''h'' ''Bob''
                demo_manager) = demo_manager"
proof -
  have a: "\<not> success (register_unknown_face demo_cv 0 ''h'' ''Bob'' demo_manager)"
    by (simp add: register_success_iff demo_cv_def as_uint8_def)
  have b: "imwrite (demo_cv\<lparr>imwrite := \<lambda>p i. Some False\<rparr>)
        (path_join (faces_dir demo_manager)
           (strip ''Bob'' @ ''_'' @ now_strftime (demo_cv\<lparr>imwrite := \<lambda>p i. Some False\<rparr>) @ ''.jpg''))
        (as_uint8 (demo_cv\<lparr>imwrite := \<lambda>p i. Some False\<rparr>) 5) \<noteq> Some True"
    by simp
  from register_failure_leaves_registry [where env = demo_cv and crp = 0 and h = "''h''"
      and nm = "''Bob''" and fm = demo_manager
      and env_w = "demo_cv\<lparr>imwrite := \<lambda>p i. Some False\<rparr>" and crp_w = 5 and nm_w = "''Bob''"
      and fm_w = demo_manager] a b
  show ?thesis by simp
qed

section \<open>Loading and refreshing the registry\<close>

lemma fold_keeps:
  "(\<And>x m. P (f x m) = P m) \<Longrightarrow> P (fold f xs m) = P m"
  by (induction xs arbitrary: m) simp_all

lemma load_images_keeps_lists:
  "known_face_names (load_images_for_persistent_encodings d fm) = known_face_names fm
   \<and> known_face_encodings (load_images_for_persistent_encodings d fm) = known_face_encodings fm"
  unfolding load_images_for_persistent_encodings_def
  by (intro conjI fold_keeps) (simp_all split: option.splits)

lemma snapshot_replaces_scan:
  "encodings_pkl d = Snapshot encodings names \<Longrightarrow>
     known_face_names (FaceManager_init env d fdir udir) = names
     \<and> known_face_encodings (FaceManager_init env d fdir udir) = encodings"
  by (simp add: FaceManager_init_def load_persistent_encodings_def load_images_keeps_lists)

text \<open>
  C6 says that the load at start and \<open>refresh_faces\<close> both merge the entries scanned from
  the directory with the snapshot, keep one entry per name and retain a name that is only
  in the directory.  The code is evaluated on a directory that holds a picture of Bob, with
  a snapshot that holds Alice only: the scan of the directory finds Bob, but
  \<open>_load_persistent_encodings\<close> assigns the lists of the snapshot over the scanned ones, so
  after \<open>refresh_faces\<close> and after the load at start the only known name is Alice.  The
  load at start does not remove duplicates either: on a directory with two pictures of
  Alice and no snapshot it ends with the name Alice twice.
\<close>

theorem reconciliation_drops_directory_entries:
  "known_face_names
     (load_known_faces demo_cv demo_disk
        (demo_manager\<lparr>known_face_encodings := [], known_face_names := [],
                       known_face_images := Map.empty\<rparr>)) = [''Bob'']
   \<and> known_face_names (refresh_faces demo_cv demo_disk demo_manager) = [''Alice'']
   \<and> known_face_names (FaceManager_init demo_cv demo_disk ''faces'' ''unknowns'') = [''Alice'']
   \<and> known_face_names (FaceManager_init demo_cv demo_disk_two ''faces'' ''unknowns'')
       = [''Alice'', ''Alice'']"
    by (simp add: demo_cv_def demo_disk_def demo_disk_two_def demo_manager_def
      FaceManager_init_def refresh_faces_def load_known_faces_def load_one_def
      load_persistent_encodings_def load_images_for_persistent_encodings_def
      find_image_for_name_def remove_duplicate_encodings_def splitext_def lower_def
      lower_char_def supported_formats_def startswith_def Let_def)

end
